theory Spec2Isabelle
  imports Main "HOL-Library.Word"
begin

unbundle bit_operations_syntax

section \<open>The ptnet guest driver (LINUX/ptnet/ptnet.c)\<close>

text \<open>
  A shallow embedding of the transmit path (\<open>ptnet_start_xmit\<close>), the receive path
  (\<open>ptnet_rx_poll\<close>), the peer-state pull (\<open>ptnet_sync_tail\<close>) and the registration
  callback (\<open>ptnet_nm_register_common\<close>) of the netmap passthrough driver.

  Ring cursors and byte counts are natural numbers; the bytes of buffers and packets are
  8-bit words; the fields of the virtio-net header are 8-bit and 16-bit words. Structures
  are records that the functions take and return updated. What the driver does to the
  outside (register writes, packets freed or delivered, queue control, log lines) is
  appended to an event trace, oldest event first.
\<close>

subsection \<open>Shared rings and the CSB\<close>

type_synonym byte = "8 word"

text \<open>One ring cell (\<open>struct netmap_slot\<close>): the index of its buffer, the number of valid
  bytes and the flags. \<open>len\<close> and \<open>flags\<close> are 16-bit fields: a value stored into \<open>len\<close> is
  taken modulo \<open>2 ^ 16\<close>.\<close>

record netmap_slot =
  buf_idx :: nat
  len :: nat
  flags :: "16 word"

definition NS_MOREFRAG :: "16 word" where
  "NS_MOREFRAG = 0x20"

text \<open>The part of \<open>struct netmap_ring\<close> the driver touches.\<close>

record netmap_ring =
  nr_buf_size :: nat
  head :: nat
  cur :: nat
  tail :: nat
  slot :: "netmap_slot list"

text \<open>The part of \<open>struct netmap_kring\<close> the driver touches; \<open>ring\<close> is the ring the
  kring points to.\<close>

record netmap_kring =
  ring :: netmap_ring
  nkr_num_slots :: nat
  nr_hwcur :: nat
  nr_hwtail :: nat
  rhead :: nat
  rcur :: nat
  rtail :: nat
  nr_kflags :: "32 word"
  nr_mode :: nat
  nr_pending_mode :: nat

text \<open>One direction of the CSB (\<open>struct pt_ring\<close>) and the CSB itself
  (\<open>struct paravirt_csb\<close>).\<close>

record pt_ring =
  pt_head :: nat
  pt_cur :: nat
  pt_hwcur :: nat
  pt_hwtail :: nat
  sync_flags :: "32 word"

record paravirt_csb =
  tx_ring :: pt_ring
  rx_ring :: pt_ring
  guest_need_txkick :: nat
  guest_need_rxkick :: nat
  host_need_txkick :: nat
  host_need_rxkick :: nat
  guest_csb_on :: nat

text \<open>Modelled from the spec: \<open>nm_next\<close> is declared in dev/netmap/netmap_kern.h, which is
  not among the sources. The spec's \<open>advance(index)\<close> returns \<open>(index + 1) mod nslots\<close>;
  the driver passes \<open>lim = nkr_num_slots - 1\<close>, so \<open>nslots = lim + 1\<close>.\<close>

definition nm_next :: "nat \<Rightarrow> nat \<Rightarrow> nat" where
  "nm_next i lim = (i + 1) mod (lim + 1)"

text \<open>Modelled from the spec: \<open>ptnetmap_guest_read_kring_csb\<close> is declared in
  dev/netmap/netmap_virt.h, which is not among the sources. The spec's pull "copies the
  peer's published hwcur/hwtail into the ring's hwcur/hwtail".\<close>

definition ptnetmap_guest_read_kring_csb :: "pt_ring \<Rightarrow> netmap_kring \<Rightarrow> netmap_kring" where
  "ptnetmap_guest_read_kring_csb ptr kring =
     kring\<lparr>nr_hwtail := pt_hwtail ptr, nr_hwcur := pt_hwcur ptr\<rparr>"

text \<open>Modelled from the spec: \<open>ptnetmap_guest_write_kring_csb\<close> is declared in
  dev/netmap/netmap_virt.h, which is not among the sources. The spec's publish "writes
  cur and head to the shared side".\<close>

definition ptnetmap_guest_write_kring_csb :: "pt_ring \<Rightarrow> nat \<Rightarrow> nat \<Rightarrow> pt_ring" where
  "ptnetmap_guest_write_kring_csb ptr c h = ptr\<lparr>pt_cur := c, pt_head := h\<rparr>"

text \<open>\<open>ptnet_sync_tail\<close> (ptnet.c, lines 110-120): read hwcur and hwtail from the CSB,
  then \<open>ring->tail = kring->rtail = kring->nr_hwtail\<close>.\<close>

definition ptnet_sync_tail :: "pt_ring \<Rightarrow> netmap_kring \<Rightarrow> netmap_kring" where
  "ptnet_sync_tail ptring kring =
     (let k1 = ptnetmap_guest_read_kring_csb ptring kring
      in k1\<lparr>rtail := nr_hwtail k1, ring := (ring k1)\<lparr>tail := nr_hwtail k1\<rparr>\<rparr>)"


subsection \<open>Packets, the device and its environment\<close>

text \<open>
  The part of \<open>struct sk_buff\<close> and its \<open>skb_shared_info\<close> the driver reads and writes.
  \<open>data\<close> is the linear part (\<open>skb_headlen\<close> bytes), \<open>frags\<close> the page fragments in
  order. \<open>csum_start\<close> is kept as the offset from \<open>skb->data\<close>, which is what
  \<open>skb_checksum_start_offset\<close> returns and \<open>skb_partial_csum_set\<close> takes.
\<close>

record sk_buff =
  data :: "byte list"
  frags :: "byte list list"
  ip_summed :: nat
  csum_start :: "16 word"
  csum_offset :: "16 word"
  gso_size :: "16 word"
  gso_type :: "16 word"
  gso_segs :: "16 word"
  xmit_more :: bool

definition skb_headlen :: "sk_buff \<Rightarrow> nat" where
  "skb_headlen skb = length (data skb)"

definition skb_len :: "sk_buff \<Rightarrow> nat" where
  "skb_len skb = length (data skb) + length (concat (frags skb))"

definition skb_is_gso :: "sk_buff \<Rightarrow> bool" where
  "skb_is_gso skb = (gso_size skb \<noteq> 0)"

text \<open>Constants of the kernel headers (linux/skbuff.h, linux/virtio_net.h) and of
  dev/netmap/netmap_virt.h and netmap_kern.h, with the values those headers give them.\<close>

definition CHECKSUM_NONE :: nat where "CHECKSUM_NONE = 0"
definition CHECKSUM_UNNECESSARY :: nat where "CHECKSUM_UNNECESSARY = 1"
definition CHECKSUM_PARTIAL :: nat where "CHECKSUM_PARTIAL = 3"

definition SKB_GSO_TCPV4 :: "16 word" where "SKB_GSO_TCPV4 = 1"
definition SKB_GSO_UDP :: "16 word" where "SKB_GSO_UDP = 2"
definition SKB_GSO_DODGY :: "16 word" where "SKB_GSO_DODGY = 4"
definition SKB_GSO_TCP_ECN :: "16 word" where "SKB_GSO_TCP_ECN = 8"
definition SKB_GSO_TCPV6 :: "16 word" where "SKB_GSO_TCPV6 = 16"

definition VIRTIO_NET_HDR_F_NEEDS_CSUM :: byte where "VIRTIO_NET_HDR_F_NEEDS_CSUM = 1"
definition VIRTIO_NET_HDR_F_DATA_VALID :: byte where "VIRTIO_NET_HDR_F_DATA_VALID = 2"
definition VIRTIO_NET_HDR_GSO_NONE :: byte where "VIRTIO_NET_HDR_GSO_NONE = 0"
definition VIRTIO_NET_HDR_GSO_TCPV4 :: byte where "VIRTIO_NET_HDR_GSO_TCPV4 = 1"
definition VIRTIO_NET_HDR_GSO_UDP :: byte where "VIRTIO_NET_HDR_GSO_UDP = 3"
definition VIRTIO_NET_HDR_GSO_TCPV6 :: byte where "VIRTIO_NET_HDR_GSO_TCPV6 = 4"
definition VIRTIO_NET_HDR_GSO_ECN :: byte where "VIRTIO_NET_HDR_GSO_ECN = 0x80"

definition NET_PTN_FEATURES_VNET_HDR :: "32 word" where "NET_PTN_FEATURES_VNET_HDR = 2"
definition NAF_FORCE_READ :: "32 word" where "NAF_FORCE_READ = 1"
definition NAF_FORCE_RECLAIM :: "32 word" where "NAF_FORCE_RECLAIM = 2"
definition NKR_PENDINTR :: "32 word" where "NKR_PENDINTR = 1"

text \<open>The return values of a transmit routine (linux/netdevice.h).\<close>

datatype netdev_tx = NETDEV_TX_OK | NETDEV_TX_BUSY

text \<open>The device registers the two datapaths write.\<close>

datatype ptnet_reg = PTNET_IO_TXKICK | PTNET_IO_RXKICK

text \<open>What the driver does to its surroundings, in program order.\<close>

datatype event =
    IOWRITE32 "32 word" ptnet_reg
  | DEV_KFREE_SKB_ANY sk_buff
  | NAPI_GRO_RECEIVE sk_buff
  | NETIF_STOP_QUEUE
  | NETIF_START_QUEUE
  | NAPI_COMPLETE_DONE int
  | NAPI_SCHEDULE
  | LOG string

record net_device_stats =
  tx_bytes :: nat
  tx_packets :: nat
  rx_bytes :: nat
  rx_packets :: nat

text \<open>
  The host works on the CSB while the guest runs. \<open>host_pub\<close> is one publication of the
  host for one direction: the cursors and the kick request it stores. The publications
  that arrive during a call are queued in \<open>host\<close>; each pull of the guest first lets the
  next one land in the CSB. With no publication left, the CSB keeps what it holds.
\<close>

record host_pub =
  hp_hwcur :: nat
  hp_hwtail :: nat
  hp_need_kick :: nat

text \<open>
  \<open>struct ptnet_info\<close> with what it points to: the CSB, TX ring 0 and RX ring 0 of the
  adapter, the netmap buffers (\<open>NMB(na, slot)\<close> is buffer \<open>buf_idx slot\<close> of \<open>nmb\<close>), the
  counters of the net device, whether its queue is stopped, and the environment:
  \<open>alloc_fail\<close> lists the outcomes of the coming \<open>napi_alloc_skb\<close> calls (True: the
  allocation fails; all succeed once the list is used up) and \<open>napi_prep\<close> is what
  \<open>napi_schedule_prep\<close> will answer.
\<close>

record ptnet_info =
  ptfeatures :: "32 word"
  csb :: paravirt_csb
  tx_kring :: netmap_kring
  rx_kring :: netmap_kring
  nmb :: "byte list list"
  stats :: net_device_stats
  queue_stopped :: bool
  napi_prep :: bool
  alloc_fail :: "bool list"
  host :: "host_pub list"
  trace :: "event list"

definition host_publish :: "host_pub \<Rightarrow> pt_ring \<Rightarrow> pt_ring" where
  "host_publish h ptr = ptr\<lparr>pt_hwcur := hp_hwcur h, pt_hwtail := hp_hwtail h\<rparr>"

text \<open>\<open>ptnet_sync_tail(&csb->tx_ring, kring)\<close> on TX ring 0, after the host's next
  publication (if any) has landed.\<close>

definition tx_sync_tail :: "ptnet_info \<Rightarrow> ptnet_info" where
  "tx_sync_tail pi =
     (let c = (case host pi of [] \<Rightarrow> csb pi
               | h # hs \<Rightarrow> (csb pi)\<lparr>tx_ring := host_publish h (tx_ring (csb pi)),
                                     host_need_txkick := hp_need_kick h\<rparr>)
      in pi\<lparr>csb := c, host := tl (host pi),
            tx_kring := ptnet_sync_tail (tx_ring c) (tx_kring pi)\<rparr>)"

definition rx_sync_tail :: "ptnet_info \<Rightarrow> ptnet_info" where
  "rx_sync_tail pi =
     (let c = (case host pi of [] \<Rightarrow> csb pi
               | h # hs \<Rightarrow> (csb pi)\<lparr>rx_ring := host_publish h (rx_ring (csb pi)),
                                     host_need_rxkick := hp_need_kick h\<rparr>)
      in pi\<lparr>csb := c, host := tl (host pi),
            rx_kring := ptnet_sync_tail (rx_ring c) (rx_kring pi)\<rparr>)"

text \<open>\<open>unsigned int const lim = kring->nkr_num_slots - 1\<close>, in unsigned 32-bit
  arithmetic.\<close>

definition ring_lim :: "netmap_kring \<Rightarrow> nat" where
  "ring_lim kring = (if nkr_num_slots kring = 0 then 2 ^ 32 - 1 else nkr_num_slots kring - 1)"

subsection \<open>The virtio-net header in a buffer\<close>

text \<open>
  \<open>struct virtio_net_hdr_v1\<close> lies over the first 12 bytes of the buffer: \<open>flags\<close> (byte
  0), \<open>gso_type\<close> (byte 1), \<open>hdr_len\<close> (bytes 2-3), \<open>gso_size\<close> (4-5), \<open>csum_start\<close>
  (6-7), \<open>csum_offset\<close> (8-9), \<open>num_buffers\<close> (10-11). The driver stores the 16-bit
  fields in the byte order of the CPU; the model takes the low byte first. A field the
  driver does not assign keeps the bytes the buffer held.
\<close>

definition sizeof_vh :: nat where
  "sizeof_vh = 12"

definition get_u8 :: "nat \<Rightarrow> byte list \<Rightarrow> byte" where
  "get_u8 off b = (if off < length b then b ! off else 0)"

definition put_u8 :: "nat \<Rightarrow> byte \<Rightarrow> byte list \<Rightarrow> byte list" where
  "put_u8 off v b = b[off := v]"

definition get_u16 :: "nat \<Rightarrow> byte list \<Rightarrow> 16 word" where
  "get_u16 off b = ucast (get_u8 off b) OR push_bit 8 (ucast (get_u8 (Suc off) b))"

definition put_u16 :: "nat \<Rightarrow> 16 word \<Rightarrow> byte list \<Rightarrow> byte list" where
  "put_u16 off v b = b[off := ucast v, Suc off := ucast (drop_bit 8 v)]"

definition vh_flags :: "byte list \<Rightarrow> byte" where "vh_flags = get_u8 0"
definition vh_gso_type :: "byte list \<Rightarrow> byte" where "vh_gso_type = get_u8 1"
definition vh_hdr_len :: "byte list \<Rightarrow> 16 word" where "vh_hdr_len = get_u16 2"
definition vh_gso_size :: "byte list \<Rightarrow> 16 word" where "vh_gso_size = get_u16 4"
definition vh_csum_start :: "byte list \<Rightarrow> 16 word" where "vh_csum_start = get_u16 6"
definition vh_csum_offset :: "byte list \<Rightarrow> 16 word" where "vh_csum_offset = get_u16 8"

definition set_vh_flags :: "byte \<Rightarrow> byte list \<Rightarrow> byte list" where
  "set_vh_flags = put_u8 0"
definition set_vh_gso_type :: "byte \<Rightarrow> byte list \<Rightarrow> byte list" where
  "set_vh_gso_type = put_u8 1"
definition set_vh_hdr_len :: "16 word \<Rightarrow> byte list \<Rightarrow> byte list" where
  "set_vh_hdr_len = put_u16 2"
definition set_vh_gso_size :: "16 word \<Rightarrow> byte list \<Rightarrow> byte list" where
  "set_vh_gso_size = put_u16 4"
definition set_vh_csum_start :: "16 word \<Rightarrow> byte list \<Rightarrow> byte list" where
  "set_vh_csum_start = put_u16 6"
definition set_vh_csum_offset :: "16 word \<Rightarrow> byte list \<Rightarrow> byte list" where
  "set_vh_csum_offset = put_u16 8"
definition set_vh_num_buffers :: "16 word \<Rightarrow> byte list \<Rightarrow> byte list" where
  "set_vh_num_buffers = put_u16 10"

subsection \<open>The transmit path\<close>

text \<open>
  First step of \<open>ptnet_start_xmit\<close> (lines 163-194): the header fields written at the
  start of the first buffer. The tests that choose \<open>gso_type\<close> read
  \<open>skb_shinfo(skb)->gso_size\<close>, as the source does.
\<close>

definition tx_vnet_hdr :: "sk_buff \<Rightarrow> byte list \<Rightarrow> byte list" where
  "tx_vnet_hdr skb vh0 =
     (let vh1 = (if ip_summed skb = CHECKSUM_PARTIAL
                 then set_vh_csum_offset (csum_offset skb)
                        (set_vh_csum_start (csum_start skb)
                          (set_vh_flags VIRTIO_NET_HDR_F_NEEDS_CSUM vh0))
                 else set_vh_csum_start 0 (set_vh_csum_offset 0 (set_vh_flags 0 vh0)));
          vh2 = (if skb_is_gso skb
                 then (let a = set_vh_gso_size (gso_size skb)
                                 (set_vh_hdr_len (of_nat (skb_headlen skb)) vh1);
                           b = (if gso_size skb AND SKB_GSO_TCPV4 \<noteq> 0
                                then set_vh_gso_type VIRTIO_NET_HDR_GSO_TCPV4 a
                                else if gso_size skb AND SKB_GSO_UDP \<noteq> 0
                                then set_vh_gso_type VIRTIO_NET_HDR_GSO_UDP a
                                else if gso_size skb AND SKB_GSO_TCPV6 \<noteq> 0
                                then set_vh_gso_type VIRTIO_NET_HDR_GSO_TCPV6 a
                                else a)
                       in if gso_size skb AND SKB_GSO_TCP_ECN \<noteq> 0
                          then set_vh_gso_type (vh_gso_type b OR VIRTIO_NET_HDR_GSO_ECN) b
                          else b)
                 else set_vh_gso_type VIRTIO_NET_HDR_GSO_NONE
                        (set_vh_gso_size 0 (set_vh_hdr_len 0 vh1)))
      in set_vh_num_buffers 0 vh2)"

text \<open>
  The state of the copy loops: the ring, the netmap buffers and \<open>nmbuf_bytes\<close>. The local
  \<open>slot\<close> of the source is \<open>&ring->slot[ring->head]\<close> whenever it is used, and \<open>nmbuf\<close>
  is \<open>nmbuf_bytes\<close> bytes into the buffer of that slot. The ring indices are meant to lie
  inside the slot array (\<open>head < nkr_num_slots = length slot\<close>): a write at an index
  outside it changes nothing in the model, and the theorems that read a slot assume the
  index inside.
\<close>

type_synonym tx_state = "netmap_ring \<times> byte list list \<times> nat"

definition NMB :: "byte list list \<Rightarrow> netmap_slot \<Rightarrow> byte list" where
  "NMB pool s = (if buf_idx s < length pool then pool ! buf_idx s else [])"

definition cur_slot :: "netmap_ring \<Rightarrow> netmap_slot" where
  "cur_slot r = slot r ! head r"

text \<open>\<open>memcpy(nmbuf, skbdata, copy)\<close> with \<open>nmbuf\<close> at offset \<open>off\<close> of the buffer of the
  current slot.\<close>

definition memcpy_nmbuf :: "netmap_ring \<Rightarrow> byte list list \<Rightarrow> nat \<Rightarrow> byte list \<Rightarrow> byte list list" where
  "memcpy_nmbuf r pool off src =
     (let b = NMB pool (cur_slot r)
      in pool[buf_idx (cur_slot r) := take off b @ src @ drop (off + length src) b])"

text \<open>Lines 222-227 and 256-261: close the current slot with \<open>NS_MOREFRAG\<close> and move to the
  next one. \<open>slot->len = nmbuf_bytes\<close> stores into the 16-bit field.\<close>

definition tx_next_slot :: "nat \<Rightarrow> netmap_ring \<Rightarrow> nat \<Rightarrow> netmap_ring" where
  "tx_next_slot lim r nmbuf_bytes =
     r\<lparr>slot := (slot r)[head r := (cur_slot r)\<lparr>len := nmbuf_bytes mod 2 ^ 16,
                                                  flags := NS_MOREFRAG\<rparr>],
       head := nm_next (head r) lim, cur := nm_next (head r) lim\<rparr>"

text \<open>
  The \<open>for (;;)\<close> loop of lines 205-228, and of lines 239-262 for one fragment: \<open>skbdata\<close>
  is what is left to copy, so \<open>skbdata_len\<close> is its length. The loop has no bound of its
  own: where it does not end the result is \<open>None\<close> (a ring with \<open>nr_buf_size = 0\<close>).
  The room left in the buffer, \<open>nr_buf_size - nmbuf_bytes\<close>, is a difference of natural
  numbers: the model follows the source as long as \<open>nmbuf_bytes \<le> nr_buf_size\<close>, which
  holds from the second slot on and in the first slot when the header fits in a buffer.
  The theorems about a transmit assume that it fits.
\<close>

partial_function (option) tx_copy :: "nat \<Rightarrow> byte list \<Rightarrow> tx_state \<Rightarrow> tx_state option" where
  "tx_copy lim skbdata st =
     (case st of (r, pool, nmbuf_bytes) \<Rightarrow>
        (let copy = (if length skbdata > nr_buf_size r - nmbuf_bytes
                     then nr_buf_size r - nmbuf_bytes else length skbdata);
             pool' = memcpy_nmbuf r pool nmbuf_bytes (take copy skbdata);
             skbdata' = drop copy skbdata;
             nmbuf_bytes' = nmbuf_bytes + copy
         in if skbdata' = [] then Some (r, pool', nmbuf_bytes')
            else tx_copy lim skbdata' (tx_next_slot lim r nmbuf_bytes', pool', 0)))"

text \<open>Third step (lines 232-263): the fragments, one after the other.\<close>

fun tx_frags :: "nat \<Rightarrow> byte list list \<Rightarrow> tx_state \<Rightarrow> tx_state option" where
  "tx_frags lim [] st = Some st"
| "tx_frags lim (frag # fs) st =
     (case tx_copy lim frag st of None \<Rightarrow> None | Some st' \<Rightarrow> tx_frags lim fs st')"

text \<open>Lines 266-268: the last slot.\<close>

definition tx_last_slot :: "nat \<Rightarrow> netmap_ring \<Rightarrow> nat \<Rightarrow> netmap_ring" where
  "tx_last_slot lim r nmbuf_bytes =
     r\<lparr>slot := (slot r)[head r := (cur_slot r)\<lparr>len := nmbuf_bytes mod 2 ^ 16, flags := 0\<rparr>],
       head := nm_next (head r) lim, cur := nm_next (head r) lim\<rparr>"

text \<open>Lines 271-282: \<open>nm_txsync_prologue\<close>, the CSB update and the kick.\<close>

definition tx_publish :: "sk_buff \<Rightarrow> ptnet_info \<Rightarrow> ptnet_info" where
  "tx_publish skb pi =
     (let r = ring (tx_kring pi);
          kring = (tx_kring pi)\<lparr>rcur := cur r, rhead := head r\<rparr>;
          c = (csb pi)\<lparr>tx_ring :=
                 ptnetmap_guest_write_kring_csb (tx_ring (csb pi)) (rcur kring) (rhead kring)\<rparr>;
          pi1 = pi\<lparr>tx_kring := kring, csb := c\<rparr>
      in if host_need_txkick c \<noteq> 0 \<and> \<not> xmit_more skb
         then pi1\<lparr>csb := c\<lparr>tx_ring := (tx_ring c)\<lparr>sync_flags := NAF_FORCE_RECLAIM\<rparr>\<rparr>,
                  trace := trace pi1 @ [IOWRITE32 0 PTNET_IO_TXKICK]\<rparr>
         else pi1)"

text \<open>Lines 286-297: stop the queue when the ring is full, then the double check.\<close>

definition tx_double_check :: "ptnet_info \<Rightarrow> ptnet_info" where
  "tx_double_check pi =
     (if head (ring (tx_kring pi)) = tail (ring (tx_kring pi))
      then (let pi1 = pi\<lparr>queue_stopped := True, trace := trace pi @ [NETIF_STOP_QUEUE],
                         csb := (csb pi)\<lparr>guest_need_txkick := 1\<rparr>\<rparr>;
                pi2 = tx_sync_tail pi1
            in if head (ring (tx_kring pi2)) \<noteq> tail (ring (tx_kring pi2))
               then pi2\<lparr>queue_stopped := False, trace := trace pi2 @ [NETIF_START_QUEUE],
                        csb := (csb pi2)\<lparr>guest_need_txkick := 0\<rparr>\<rparr>
               else pi2)
      else pi)"

text \<open>Lines 299-304: the counters, the release of the packet and the return value.\<close>

definition tx_done :: "sk_buff \<Rightarrow> ptnet_info \<Rightarrow> netdev_tx \<times> ptnet_info" where
  "tx_done skb pi =
     (NETDEV_TX_OK,
      pi\<lparr>stats := (stats pi)\<lparr>tx_bytes := tx_bytes (stats pi) + skb_len skb,
                              tx_packets := tx_packets (stats pi) + 1\<rparr>,
         trace := trace pi @ [DEV_KFREE_SKB_ANY skb]\<rparr>)"

text \<open>Lines 156-198: the first slot, with the header when the feature is on.\<close>

definition tx_first_slot :: "sk_buff \<Rightarrow> ptnet_info \<Rightarrow> tx_state" where
  "tx_first_slot skb pi =
     (let r = ring (tx_kring pi)
      in if ptfeatures pi AND NET_PTN_FEATURES_VNET_HDR \<noteq> 0
         then (r, (nmb pi)[buf_idx (cur_slot r) := tx_vnet_hdr skb (NMB (nmb pi) (cur_slot r))],
               sizeof_vh)
         else (r, nmb pi, 0))"

text \<open>
  \<open>ptnet_start_xmit\<close> (lines 122-305). \<open>None\<close>: a copy loop does not end. Otherwise the
  value returned and the state the call leaves.
\<close>

definition ptnet_start_xmit :: "sk_buff \<Rightarrow> ptnet_info \<Rightarrow> (netdev_tx \<times> ptnet_info) option" where
  "ptnet_start_xmit skb pi0 =
     (let pi = tx_sync_tail pi0;
          lim = ring_lim (tx_kring pi)
      in if head (ring (tx_kring pi)) = tail (ring (tx_kring pi))
         then Some (NETDEV_TX_OK,
                    pi\<lparr>trace := trace pi @ [LOG ''TX ring unexpected overflow, dropping'',
                                             DEV_KFREE_SKB_ANY skb]\<rparr>)
         else (case tx_copy lim (data skb) (tx_first_slot skb pi) of
                 None \<Rightarrow> None
               | Some st2 \<Rightarrow>
                  (case tx_frags lim (frags skb) st2 of
                     None \<Rightarrow> None
                   | Some (r, pool, nmbuf_bytes) \<Rightarrow>
                       Some (tx_done skb (tx_double_check (tx_publish skb
                         (pi\<lparr>tx_kring := (tx_kring pi)\<lparr>ring := tx_last_slot lim r nmbuf_bytes\<rparr>,
                             nmb := pool\<rparr>)))))))"

subsection \<open>The receive path\<close>

text \<open>
  \<open>skb_partial_csum_set\<close> of the kernel (net/core/skbuff.c), as in the kernels that have
  \<open>napi_alloc_skb\<close> and \<open>struct skb_frag_struct\<close> (3.19 to 4.19): it refuses the offsets when
  \<open>start > skb_headlen(skb)\<close> or \<open>(int)start + off > skb_headlen(skb) - 2\<close>, and otherwise
  marks the packet \<open>CHECKSUM_PARTIAL\<close> with these offsets. \<open>skb_headlen\<close> is an
  \<open>unsigned int\<close>, so the second comparison is unsigned and \<open>skb_headlen(skb) - 2\<close> wraps
  around below 2. \<open>None\<close> is its \<open>false\<close>.
\<close>

definition skb_partial_csum_set :: "sk_buff \<Rightarrow> 16 word \<Rightarrow> 16 word \<Rightarrow> sk_buff option" where
  "skb_partial_csum_set skb start off =
     (if unat start > skb_headlen skb \<or>
         unat start + unat off > (skb_headlen skb + 2 ^ 32 - 2) mod 2 ^ 32
      then None
      else Some (skb\<lparr>ip_summed := CHECKSUM_PARTIAL, csum_start := start, csum_offset := off\<rparr>))"

text \<open>The packet \<open>napi_alloc_skb\<close> returns, filled by \<open>memcpy(skb_put(skb, len), nmbuf,
  len)\<close> (lines 440-446).\<close>

definition rx_new_skb :: "byte list \<Rightarrow> sk_buff" where
  "rx_new_skb d =
     \<lparr>data = d, frags = [], ip_summed = CHECKSUM_NONE, csum_start = 0, csum_offset = 0,
      gso_size = 0, gso_type = 0, gso_segs = 0, xmit_more = False\<rparr>"

text \<open>Lines 453-463: the checksum fields of the header \<open>vh\<close>. \<open>None\<close>: the packet is
  released and the loop continues with the next slot.\<close>

definition rx_csum :: "bool \<Rightarrow> byte list \<Rightarrow> sk_buff \<Rightarrow> sk_buff option" where
  "rx_csum have_vnet_hdr vh skb =
     (if have_vnet_hdr \<and> vh_flags vh AND VIRTIO_NET_HDR_F_NEEDS_CSUM \<noteq> 0
      then skb_partial_csum_set skb (vh_csum_start vh) (vh_csum_offset vh)
      else if have_vnet_hdr \<and> vh_flags vh AND VIRTIO_NET_HDR_F_DATA_VALID \<noteq> 0
      then Some (skb\<lparr>ip_summed := CHECKSUM_UNNECESSARY\<rparr>)
      else Some skb)"

text \<open>Lines 467-490: the segmentation fields of the header \<open>vh\<close>. The \<open>switch\<close> has no
  default case.\<close>

definition rx_gso :: "bool \<Rightarrow> byte list \<Rightarrow> sk_buff \<Rightarrow> sk_buff" where
  "rx_gso have_vnet_hdr vh skb =
     (if have_vnet_hdr \<and> vh_gso_type vh \<noteq> VIRTIO_NET_HDR_GSO_NONE
      then (let t = vh_gso_type vh AND NOT VIRTIO_NET_HDR_GSO_ECN;
                skb1 = (if t = VIRTIO_NET_HDR_GSO_TCPV4 then skb\<lparr>gso_type := SKB_GSO_TCPV4\<rparr>
                        else if t = VIRTIO_NET_HDR_GSO_UDP then skb\<lparr>gso_type := SKB_GSO_UDP\<rparr>
                        else if t = VIRTIO_NET_HDR_GSO_TCPV6 then skb\<lparr>gso_type := SKB_GSO_TCPV6\<rparr>
                        else skb);
                skb2 = (if vh_gso_type vh AND VIRTIO_NET_HDR_GSO_ECN \<noteq> 0
                        then skb1\<lparr>gso_type := gso_type skb1 OR SKB_GSO_TCP_ECN\<rparr>
                        else skb1)
            in skb2\<lparr>gso_size := vh_gso_size vh,
                    gso_type := gso_type skb2 OR SKB_GSO_DODGY,
                    gso_segs := 0\<rparr>)
      else skb)"

text \<open>Lines 431-438: \<open>len\<close> is an \<open>unsigned int\<close>, so taking the header off a shorter
  slot wraps around.\<close>

definition rx_len :: "bool \<Rightarrow> netmap_slot \<Rightarrow> nat" where
  "rx_len have_vnet_hdr s =
     (if have_vnet_hdr then (len s + 2 ^ 32 - sizeof_vh) mod 2 ^ 32 else len s)"

text \<open>
  What one slot turns into when memory is available: its payload bytes, with the
  metadata of the header at the start of its own buffer. \<open>None\<close>: the checksum offsets
  were refused. \<open>eth_type_trans\<close> (line 465) classifies the frame and is not modelled.
\<close>

definition rx_packet :: "bool \<Rightarrow> byte list list \<Rightarrow> netmap_slot \<Rightarrow> sk_buff option" where
  "rx_packet have_vnet_hdr pool s =
     (let nmbuf = NMB pool s;
          skb = rx_new_skb (take (rx_len have_vnet_hdr s)
                  (drop (if have_vnet_hdr then sizeof_vh else 0) nmbuf))
      in case rx_csum have_vnet_hdr nmbuf skb of
           None \<Rightarrow> None
         | Some skb1 \<Rightarrow> Some (rx_gso have_vnet_hdr nmbuf skb1))"





text \<open>Lines 497-518: the budget was not used up.\<close>

definition rx_complete :: "int \<Rightarrow> int \<Rightarrow> ptnet_info \<Rightarrow> ptnet_info" where
  "rx_complete budget work_done pi =
     (if work_done < budget
      then (let pi1 = pi\<lparr>csb := (csb pi)\<lparr>guest_need_rxkick := 1\<rparr>,
                         trace := trace pi @ [NAPI_COMPLETE_DONE work_done]\<rparr>;
                pi2 = rx_sync_tail pi1
            in if head (ring (rx_kring pi2)) \<noteq> tail (ring (rx_kring pi2)) \<and> napi_prep pi2
               then pi2\<lparr>csb := (csb pi2)\<lparr>guest_need_rxkick := 0\<rparr>,
                        trace := trace pi2 @ [NAPI_SCHEDULE]\<rparr>
               else pi2)
      else pi)"

text \<open>Lines 520-533: the refill notice and the kick.\<close>

definition rx_publish :: "int \<Rightarrow> ptnet_info \<Rightarrow> ptnet_info" where
  "rx_publish work_done pi =
     (if work_done \<noteq> 0
      then (let r = ring (rx_kring pi);
                kring = (rx_kring pi)\<lparr>rcur := cur r, rhead := head r\<rparr>;
                c = (csb pi)\<lparr>rx_ring :=
                       ptnetmap_guest_write_kring_csb (rx_ring (csb pi)) (rcur kring) (rhead kring)\<rparr>;
                pi1 = pi\<lparr>rx_kring := kring, csb := c\<rparr>
            in if host_need_rxkick c \<noteq> 0
               then pi1\<lparr>csb := c\<lparr>rx_ring := (rx_ring c)\<lparr>sync_flags := NAF_FORCE_READ\<rparr>\<rparr>,
                        trace := trace pi1 @ [IOWRITE32 0 PTNET_IO_RXKICK]\<rparr>
               else pi1)
      else pi)"

text \<open>Lines 414-418: the pull at entry and the reset of \<open>NKR_PENDINTR\<close>.\<close>

definition rx_entry :: "ptnet_info \<Rightarrow> ptnet_info" where
  "rx_entry pi0 =
     (let pi = rx_sync_tail pi0
      in pi\<lparr>rx_kring := (rx_kring pi)\<lparr>nr_kflags := nr_kflags (rx_kring pi) AND NOT NKR_PENDINTR\<rparr>\<rparr>)"


subsection \<open>Registration\<close>

definition NKR_NETMAP_OFF :: nat where "NKR_NETMAP_OFF = 0"
definition NKR_NETMAP_ON :: nat where "NKR_NETMAP_ON = 1"

text \<open>The control operations \<open>ptnet_nm_register_common\<close> writes to the PTCTL register.\<close>

datatype ptctl_cmd = NET_PARAVIRT_PTCTL_REGIF | NET_PARAVIRT_PTCTL_UNREGIF

text \<open>
  The part of the adapter (\<open>struct netmap_pt_guest_adapter\<close>) registration works on: the
  count of active file descriptors, the flags, the krings of both directions, the CSB, and
  the commands written to PTCTL so far, oldest first.
\<close>

record netmap_adapter =
  active_fds :: int
  na_flags :: "32 word"
  tx_rings :: "netmap_kring list"
  rx_rings :: "netmap_kring list"
  na_csb :: paravirt_csb
  ptctl_log :: "ptctl_cmd list"

text \<open>
  What registration takes from outside ptnet.c: the device (the status read from PTSTS
  after a command, and the CSB as the host leaves it), and the helpers and the flag of
  dev/netmap/netmap_kern.h, which is not among the sources.
\<close>

record reg_env =
  dev_ptctl :: "ptctl_cmd \<Rightarrow> paravirt_csb \<Rightarrow> nat \<times> paravirt_csb"
  nm_kring_pending_on :: "netmap_kring \<Rightarrow> bool"
  nm_kring_pending_off :: "netmap_kring \<Rightarrow> bool"
  nm_set_native_flags :: "netmap_adapter \<Rightarrow> netmap_adapter"
  nm_clear_native_flags :: "netmap_adapter \<Rightarrow> netmap_adapter"
  NAF_NETMAP_ON :: "32 word"

text \<open>\<open>BUG_ON\<close> stops the kernel: the call does not return.\<close>

datatype reg_fault = BUG_ON

text \<open>\<open>ptnet_nm_ptctl\<close> (lines 783-794): write the command, read the status.\<close>

definition ptnet_nm_ptctl :: "reg_env \<Rightarrow> ptctl_cmd \<Rightarrow> netmap_adapter \<Rightarrow> nat \<times> netmap_adapter" where
  "ptnet_nm_ptctl env cmd na =
     (case dev_ptctl env cmd (na_csb na) of
        (ret, c) \<Rightarrow> (ret, na\<lparr>na_csb := c, ptctl_log := ptctl_log na @ [cmd]\<rparr>))"

text \<open>Lines 832-847: one kring takes its cursors from the CSB.\<close>

definition reg_kring_on :: "reg_env \<Rightarrow> pt_ring \<Rightarrow> netmap_kring \<Rightarrow> netmap_kring" where
  "reg_kring_on env ptring kring =
     (if \<not> nm_kring_pending_on env kring then kring
      else kring\<lparr>rhead := pt_head ptring, rcur := pt_cur ptring,
                 nr_hwcur := pt_hwcur ptring, nr_hwtail := pt_hwtail ptring,
                 rtail := pt_hwtail ptring,
                 ring := (ring kring)\<lparr>head := pt_head ptring, cur := pt_cur ptring,
                                        tail := pt_hwtail ptring\<rparr>,
                 nr_mode := NKR_NETMAP_ON\<rparr>)"

text \<open>Lines 867-873: one kring leaves netmap mode.\<close>

definition reg_kring_off :: "reg_env \<Rightarrow> netmap_kring \<Rightarrow> netmap_kring" where
  "reg_kring_off env kring =
     (if \<not> nm_kring_pending_off env kring then kring else kring\<lparr>nr_mode := NKR_NETMAP_OFF\<rparr>)"

text \<open>
  \<open>ptnet_nm_register_common\<close> (lines 800-881). \<open>onoff\<close> and \<open>native\<close> are the C integers
  read as truth values. \<open>Inl BUG_ON\<close>: the assertion of line 816 fired; otherwise the value
  returned and the adapter.
\<close>

definition ptnet_nm_register_common ::
    "reg_env \<Rightarrow> netmap_adapter \<Rightarrow> bool \<Rightarrow> bool \<Rightarrow> reg_fault + nat \<times> netmap_adapter" where
  "ptnet_nm_register_common env na onoff native =
     (if active_fds na > 0
      then (if \<not> native then Inl BUG_ON else Inr (0, na))
      else if onoff
      then (case ptnet_nm_ptctl env NET_PARAVIRT_PTCTL_REGIF na of
              (ret, na1) \<Rightarrow>
                if ret \<noteq> 0 then Inr (ret, na1)
                else (let na2 = na1\<lparr>rx_rings := map (reg_kring_on env (rx_ring (na_csb na1)))
                                                  (rx_rings na1),
                                     tx_rings := map (reg_kring_on env (tx_ring (na_csb na1)))
                                                  (tx_rings na1)\<rparr>
                      in Inr (0, if native then nm_set_native_flags env na2
                                 else na2\<lparr>na_flags := na_flags na2 OR NAF_NETMAP_ON env\<rparr>)))
      else (let na1 = (if native then nm_clear_native_flags env na
                       else na\<lparr>na_flags := na_flags na AND NAF_NETMAP_ON env\<rparr>);
                na2 = na1\<lparr>rx_rings := map (reg_kring_off env) (rx_rings na1),
                          tx_rings := map (reg_kring_off env) (tx_rings na1)\<rparr>
            in Inr (ptnet_nm_ptctl env NET_PARAVIRT_PTCTL_UNREGIF na2)))"

text \<open>Lines 883-893: the two registration callbacks.\<close>

definition ptnet_nm_register_netif :: "reg_env \<Rightarrow> netmap_adapter \<Rightarrow> bool \<Rightarrow> reg_fault + nat \<times> netmap_adapter" where
  "ptnet_nm_register_netif env na onoff = ptnet_nm_register_common env na onoff False"

definition ptnet_nm_register_native :: "reg_env \<Rightarrow> netmap_adapter \<Rightarrow> bool \<Rightarrow> reg_fault + nat \<times> netmap_adapter" where
  "ptnet_nm_register_native env na onoff = ptnet_nm_register_common env na onoff True"

subsection \<open>The slots a transmit fills\<close>

text \<open>
  The ring after \<open>s\<close> slots in a row were closed full, each by \<open>tx_next_slot\<close> with
  \<open>nmbuf_bytes = nr_buf_size\<close>. The copy loops are compared with it.
\<close>

fun tx_splits :: "nat \<Rightarrow> nat \<Rightarrow> netmap_ring \<Rightarrow> netmap_ring" where
  "tx_splits lim 0 r = r"
| "tx_splits lim (Suc s) r = tx_splits lim s (tx_next_slot lim r (nr_buf_size r))"

text \<open>The state after \<open>T\<close> bytes went into the slots that start at ring \<open>r0\<close>.\<close>

definition tx_after :: "nat \<Rightarrow> netmap_ring \<Rightarrow> nat \<Rightarrow> tx_state \<Rightarrow> bool" where
  "tx_after lim r0 T st =
     (fst st = tx_splits lim ((T - 1) div nr_buf_size r0) r0 \<and>
      snd (snd st) = T - ((T - 1) div nr_buf_size r0) * nr_buf_size r0)"

text \<open>The value of \<open>nmbuf_bytes\<close> after the first step: \<open>sizeof(*vh)\<close> or 0.\<close>

definition tx_hdr_bytes :: "ptnet_info \<Rightarrow> nat" where
  "tx_hdr_bytes pi = (if ptfeatures pi AND NET_PTN_FEATURES_VNET_HDR \<noteq> 0 then sizeof_vh else 0)"

text \<open>How often a packet exceeds the room of a slot: with \<open>W\<close> bytes to place (header and
  payload) and buffers of \<open>B\<close> bytes, \<open>(W - 1) div B\<close> times.\<close>

definition tx_nsplits :: "sk_buff \<Rightarrow> ptnet_info \<Rightarrow> nat" where
  "tx_nsplits skb pi =
     (tx_hdr_bytes pi + skb_len skb - 1) div nr_buf_size (ring (tx_kring pi))"

text \<open>The ring a transmit is expected to leave, up to \<open>tail\<close>: \<open>tx_nsplits\<close> full slots with
  \<open>NS_MOREFRAG\<close>, then the last slot with the rest.\<close>

definition tx_filled :: "sk_buff \<Rightarrow> ptnet_info \<Rightarrow> netmap_ring" where
  "tx_filled skb pi =
     (let r0 = ring (tx_kring pi); lim = ring_lim (tx_kring pi); S = tx_nsplits skb pi
      in tx_last_slot lim (tx_splits lim S r0) (tx_hdr_bytes pi + skb_len skb - S * nr_buf_size r0))"

text \<open>
  What the consumer of the ring reads from \<open>n\<close> slots in a row from index \<open>h\<close> on: of each
  slot the first \<open>len\<close> bytes of its buffer, one slot after the other.
\<close>

definition tx_read :: "nat \<Rightarrow> netmap_slot list \<Rightarrow> byte list list \<Rightarrow> nat \<Rightarrow> nat \<Rightarrow> byte list" where
  "tx_read lim sl pool h n =
     concat (map (\<lambda>j. take (len (sl ! ((h + j) mod (lim + 1))))
                          (NMB pool (sl ! ((h + j) mod (lim + 1))))) [0..<n])"

text \<open>
  The bytes of a packet in the order \<open>ptnet_start_xmit\<close> places them: the 12 bytes of the
  header that the first step leaves at the start of the first buffer (when the feature is
  on), the linear part, then the fragments.
\<close>

definition tx_stream :: "sk_buff \<Rightarrow> ptnet_info \<Rightarrow> byte list" where
  "tx_stream skb pi =
     (if ptfeatures pi AND NET_PTN_FEATURES_VNET_HDR \<noteq> 0
      then take sizeof_vh (tx_vnet_hdr skb (NMB (nmb pi) (cur_slot (ring (tx_kring pi)))))
      else []) @ data skb @ concat (frags skb)"

text \<open>The bytes in the first \<open>s\<close> buffers from slot \<open>h\<close> on, each taken whole (\<open>B\<close> bytes),
  followed by the first \<open>nb\<close> bytes of the next one.\<close>

definition tx_stored :: "nat \<Rightarrow> nat \<Rightarrow> netmap_slot list \<Rightarrow> byte list list \<Rightarrow> nat \<Rightarrow> nat \<Rightarrow> nat \<Rightarrow> byte list" where
  "tx_stored lim B sl pool h s nb =
     concat (map (\<lambda>j. take B (NMB pool (sl ! ((h + j) mod (lim + 1))))) [0..<s]) @
     take nb (NMB pool (sl ! ((h + s) mod (lim + 1))))"

text \<open>Every slot of the ring has a buffer of at least \<open>B\<close> bytes in the pool.\<close>

definition tx_bufs_ok :: "nat \<Rightarrow> netmap_slot list \<Rightarrow> byte list list \<Rightarrow> bool" where
  "tx_bufs_ok B sl pool = list_all (\<lambda>s. B \<le> length (NMB pool s)) sl"

text \<open>The state of the copy loops after the bytes \<open>w\<close> went into the slots that start at
  ring \<open>r0\<close>: the ring, the fill of the current buffer, and the bytes the buffers hold.\<close>

definition tx_holds :: "nat \<Rightarrow> netmap_ring \<Rightarrow> byte list \<Rightarrow> tx_state \<Rightarrow> bool" where
  "tx_holds lim r0 w st =
     (fst st = tx_splits lim ((length w - 1) div nr_buf_size r0) r0 \<and>
      snd (snd st) = length w - ((length w - 1) div nr_buf_size r0) * nr_buf_size r0 \<and>
      tx_bufs_ok (nr_buf_size r0) (slot r0) (fst (snd st)) \<and>
      tx_stored lim (nr_buf_size r0) (slot r0) (fst (snd st)) (head r0)
        ((length w - 1) div nr_buf_size r0)
        (length w - ((length w - 1) div nr_buf_size r0) * nr_buf_size r0) = w)"

text \<open>The events that release a packet.\<close>

fun is_kfree :: "event \<Rightarrow> bool" where
  "is_kfree (DEV_KFREE_SKB_ANY skb) = True"
| "is_kfree e = False"

text \<open>The slots the producer may fill: those from \<open>head\<close> up to, not including,
  \<open>tail\<close>.\<close>

definition tx_free :: "ptnet_info \<Rightarrow> nat" where
  "tx_free pi =
     (tail (ring (tx_kring pi)) + nkr_num_slots (tx_kring pi) - head (ring (tx_kring pi)))
       mod nkr_num_slots (tx_kring pi)"

text \<open>The tail the next pull of the TX ring will see.\<close>

definition tx_second_tail :: "ptnet_info \<Rightarrow> nat" where
  "tx_second_tail pi = (case host pi of [] \<Rightarrow> pt_hwtail (tx_ring (csb pi)) | h # hs \<Rightarrow> hp_hwtail h)"

subsection \<open>What a receive delivers\<close>

text \<open>The packets handed to \<open>napi_gro_receive\<close>, in order.\<close>

fun delivered :: "event list \<Rightarrow> sk_buff list" where
  "delivered [] = []"
| "delivered (NAPI_GRO_RECEIVE skb # es) = skb # delivered es"
| "delivered (e # es) = delivered es"


text \<open>\<open>have_vnet_hdr\<close> of \<open>ptnet_rx_poll\<close> (line 407).\<close>

definition rx_have_vnet_hdr :: "ptnet_info \<Rightarrow> bool" where
  "rx_have_vnet_hdr pi = (ptfeatures pi AND NET_PTN_FEATURES_VNET_HDR \<noteq> 0)"

subsection \<open>Example states\<close>

text \<open>
  Concrete states for the instances below: rings of four slots, a device without the
  header feature (\<open>ex_pi\<close>: buffers of \<open>bs\<close> bytes, TX and RX ring with the given \<open>head\<close>
  and \<open>tail\<close>), a receive ring holding a flagged slot followed by an unflagged one
  (\<open>ex_rx_pi\<close>), a TCPv4 segmentation packet (\<open>ex_gso_skb\<close>), and an adapter with a device
  that accepts every command (\<open>ex_na\<close>, \<open>ex_env\<close>).
\<close>

definition ex_slots :: "netmap_slot list" where
  "ex_slots = [\<lparr>buf_idx = 0, len = 0, flags = 0\<rparr>, \<lparr>buf_idx = 1, len = 0, flags = 0\<rparr>,
               \<lparr>buf_idx = 2, len = 0, flags = 0\<rparr>, \<lparr>buf_idx = 3, len = 0, flags = 0\<rparr>]"

definition ex_kring :: "nat \<Rightarrow> nat \<Rightarrow> nat \<Rightarrow> netmap_kring" where
  "ex_kring bs h t =
     \<lparr>ring = \<lparr>nr_buf_size = bs, head = h, cur = h, tail = t, slot = ex_slots\<rparr>,
      nkr_num_slots = 4, nr_hwcur = h, nr_hwtail = t, rhead = h, rcur = h, rtail = t,
      nr_kflags = 0, nr_mode = 1, nr_pending_mode = 1\<rparr>"

definition ex_ptr :: "nat \<Rightarrow> nat \<Rightarrow> pt_ring" where
  "ex_ptr h t = \<lparr>pt_head = h, pt_cur = h, pt_hwcur = h, pt_hwtail = t, sync_flags = 0\<rparr>"

definition ex_pi :: "nat \<Rightarrow> nat \<Rightarrow> nat \<Rightarrow> host_pub list \<Rightarrow> ptnet_info" where
  "ex_pi bs h t pubs =
     \<lparr>ptfeatures = 1,
      csb = \<lparr>tx_ring = ex_ptr h t, rx_ring = ex_ptr h t, guest_need_txkick = 0,
              guest_need_rxkick = 0, host_need_txkick = 1, host_need_rxkick = 1,
              guest_csb_on = 1\<rparr>,
      tx_kring = ex_kring bs h t, rx_kring = ex_kring bs h t,
      nmb = replicate 4 (replicate bs 0),
      stats = \<lparr>tx_bytes = 0, tx_packets = 0, rx_bytes = 0, rx_packets = 0\<rparr>,
      queue_stopped = False, napi_prep = True, alloc_fail = [], host = pubs, trace = []\<rparr>"

definition ex_skb :: "byte list \<Rightarrow> sk_buff" where
  "ex_skb d = \<lparr>data = d, frags = [], ip_summed = 0, csum_start = 0, csum_offset = 0,
               gso_size = 0, gso_type = 0, gso_segs = 0, xmit_more = False\<rparr>"

definition ex_pubs :: "host_pub list" where
  "ex_pubs = [\<lparr>hp_hwcur = 0, hp_hwtail = 1, hp_need_kick = 1\<rparr>,
              \<lparr>hp_hwcur = 1, hp_hwtail = 3, hp_need_kick = 1\<rparr>]"

definition ex_rx_pi :: "host_pub list \<Rightarrow> ptnet_info" where
  "ex_rx_pi pubs =
     \<lparr>ptfeatures = 1,
      csb = \<lparr>tx_ring = ex_ptr 0 3, rx_ring = ex_ptr 0 2, guest_need_txkick = 0,
              guest_need_rxkick = 0, host_need_txkick = 1, host_need_rxkick = 1,
              guest_csb_on = 1\<rparr>,
      tx_kring = ex_kring 2 0 3,
      rx_kring = (ex_kring 2 0 2)\<lparr>ring := (ring (ex_kring 2 0 2))\<lparr>slot :=
         [\<lparr>buf_idx = 0, len = 2, flags = NS_MOREFRAG\<rparr>, \<lparr>buf_idx = 1, len = 1, flags = 0\<rparr>,
          \<lparr>buf_idx = 2, len = 0, flags = 0\<rparr>, \<lparr>buf_idx = 3, len = 0, flags = 0\<rparr>]\<rparr>\<rparr>,
      nmb = [[1, 2], [3, 0], [0, 0], [0, 0]],
      stats = \<lparr>tx_bytes = 0, tx_packets = 0, rx_bytes = 0, rx_packets = 0\<rparr>,
      queue_stopped = False, napi_prep = True, alloc_fail = [], host = pubs, trace = []\<rparr>"


definition ex_gso_skb :: sk_buff where
  "ex_gso_skb =
     \<lparr>data = replicate 66 0, frags = [replicate 2920 0], ip_summed = CHECKSUM_PARTIAL,
      csum_start = 34, csum_offset = 16, gso_size = 1460, gso_type = SKB_GSO_TCPV4,
      gso_segs = 2, xmit_more = False\<rparr>"

definition ex_vh0 :: "byte list" where
  "ex_vh0 = [0, 0, 0, 0, 0, 0, 0, 0, 0, 0, 0, 0]"

definition ex_env :: reg_env where
  "ex_env =
     \<lparr>dev_ptctl = (\<lambda>cmd c. (0, c)),
      nm_kring_pending_on = (\<lambda>k. nr_pending_mode k = NKR_NETMAP_ON \<and> nr_mode k = NKR_NETMAP_OFF),
      nm_kring_pending_off = (\<lambda>k. nr_pending_mode k = NKR_NETMAP_OFF \<and> nr_mode k = NKR_NETMAP_ON),
      nm_set_native_flags = (\<lambda>na. na\<lparr>na_flags := na_flags na OR 48\<rparr>),
      nm_clear_native_flags = (\<lambda>na. na\<lparr>na_flags := na_flags na AND NOT 48\<rparr>),
      NAF_NETMAP_ON = 32\<rparr>"

definition ex_na :: "int \<Rightarrow> netmap_adapter" where
  "ex_na fds =
     \<lparr>active_fds = fds, na_flags = 0,
      tx_rings = [(ex_kring 2 0 0)\<lparr>nr_mode := 0\<rparr>], rx_rings = [(ex_kring 2 0 0)\<lparr>nr_mode := 0\<rparr>],
      na_csb = \<lparr>tx_ring = ex_ptr 0 3, rx_ring = ex_ptr 0 0, guest_need_txkick = 0,
                 guest_need_rxkick = 0, host_need_txkick = 1, host_need_rxkick = 1,
                 guest_csb_on = 0\<rparr>,
      ptctl_log = []\<rparr>"

section \<open>Properties\<close>

subsection \<open>The copy loops of the transmit path\<close>

lemma nr_buf_size_tx_next_slot [simp]: "nr_buf_size (tx_next_slot lim r n) = nr_buf_size r"
  by (simp add: tx_next_slot_def)

lemma tx_copy_fits:
  "length d \<le> nr_buf_size r - nb \<Longrightarrow>
   tx_copy lim d (r, pool, nb) = Some (r, memcpy_nmbuf r pool nb d, nb + length d)"
  by (subst tx_copy.simps) (simp add: Let_def)

lemma tx_copy_split:
  "nr_buf_size r - nb < length d \<Longrightarrow>
   tx_copy lim d (r, pool, nb) =
     tx_copy lim (drop (nr_buf_size r - nb) d)
       (tx_next_slot lim r (nb + (nr_buf_size r - nb)),
        memcpy_nmbuf r pool nb (take (nr_buf_size r - nb) d), 0)"
  by (subst tx_copy.simps) (simp add: Let_def)

lemma div_add_self_Suc: "0 < (B::nat) \<Longrightarrow> (a + B) div B = Suc (a div B)"
  by (simp add: div_add_self2)

lemma tx_copy_count_aux:
  "length d = n \<Longrightarrow> 0 < nr_buf_size r \<Longrightarrow> nb < nr_buf_size r \<Longrightarrow>
   \<exists>pool'. tx_copy lim d (r, pool, nb) =
     Some (tx_splits lim ((nb + length d - 1) div nr_buf_size r) r, pool',
           nb + length d - ((nb + length d - 1) div nr_buf_size r) * nr_buf_size r)"
proof (induction n arbitrary: d r pool nb rule: less_induct)
  case (less n)
  let ?B = "nr_buf_size r"
  show ?case
  proof (cases "length d \<le> ?B - nb")
    case True
    then have "(nb + length d - 1) div ?B = 0" using less.prems by simp
    then show ?thesis using True by (simp add: tx_copy_fits)
  next
    case False
    let ?d = "drop (?B - nb) d"
    let ?r = "tx_next_slot lim r ?B"
    have lt: "length ?d < n" using less.prems False by simp
    have B': "nr_buf_size ?r = ?B" by simp
    from less.IH[OF lt refl, of ?r 0 "memcpy_nmbuf r pool nb (take (?B - nb) d)"] less.prems
    obtain pool' where
      "tx_copy lim ?d (?r, memcpy_nmbuf r pool nb (take (?B - nb) d), 0) =
         Some (tx_splits lim ((length ?d - 1) div ?B) ?r, pool',
               length ?d - ((length ?d - 1) div ?B) * ?B)"
      by auto
    moreover have T: "nb + length d - 1 = (length ?d - 1) + ?B" using False less.prems by simp
    moreover have "(nb + length d - 1) div ?B = Suc ((length ?d - 1) div ?B)"
      unfolding T using less.prems(2) by (rule div_add_self_Suc)
    moreover have "length ?d = nb + length d - ?B" using less.prems by simp
    moreover have "nb + (?B - nb) = ?B" using less.prems by simp
    ultimately show ?thesis using False
      by (simp add: tx_copy_split add.commute)
  qed
qed

lemma nr_buf_size_tx_splits [simp]: "nr_buf_size (tx_splits lim s r) = nr_buf_size r"
  by (induction s arbitrary: r) simp_all

lemma tx_splits_add: "tx_splits lim (a + b) r = tx_splits lim b (tx_splits lim a r)"
  by (induction a arbitrary: r) simp_all

lemma tx_copy_count:
  assumes B: "0 < nr_buf_size r" and nb: "nb \<le> nr_buf_size r"
  shows "\<exists>pool'. tx_copy lim d (r, pool, nb) =
     Some (tx_splits lim ((nb + length d - 1) div nr_buf_size r) r, pool',
           nb + length d - ((nb + length d - 1) div nr_buf_size r) * nr_buf_size r)"
proof (cases "nb < nr_buf_size r")
  case True
  then show ?thesis using tx_copy_count_aux[OF refl B] by blast
next
  case False
  then have eq: "nb = nr_buf_size r" using nb by simp
  let ?B = "nr_buf_size r"
  show ?thesis
  proof (cases "d = []")
    case True
    then show ?thesis using B eq by (simp add: tx_copy_fits)
  next
    case False
    let ?r = "tx_next_slot lim r ?B"
    have B': "0 < nr_buf_size ?r" "0 < nr_buf_size ?r" using B by simp_all
    from tx_copy_count_aux[OF refl B'(1), of 0 lim d "memcpy_nmbuf r pool nb []"] B
    obtain pool' where
      "tx_copy lim d (?r, memcpy_nmbuf r pool nb [], 0) =
         Some (tx_splits lim ((length d - 1) div ?B) ?r, pool',
               length d - ((length d - 1) div ?B) * ?B)"
      by auto
    moreover have "nb + length d - 1 = (length d - 1) + ?B" using False eq by (cases d) simp_all
    then have "(nb + length d - 1) div ?B = Suc ((length d - 1) div ?B)"
      using B by (simp only: div_add_self_Suc)
    ultimately show ?thesis using False eq
      by (simp add: tx_copy_split)
  qed
qed

lemma div_diff_mult: "S * B \<le> x \<Longrightarrow> 0 < (B::nat) \<Longrightarrow> (x - S * B) div B = x div B - S"
proof -
  assume a: "S * B \<le> x" "0 < B"
  then obtain y where y: "x = y + S * B" by (metis le_add_diff_inverse2)
  show ?thesis unfolding y using a(2) by simp
qed

lemma tx_after_bound:
  assumes "0 < (B::nat)"
  shows "((T - 1) div B) * B \<le> T - 1" and "T - ((T - 1) div B) * B \<le> B"
proof -
  show a: "((T - 1) div B) * B \<le> T - 1" by simp
  have "T - 1 < ((T - 1) div B) * B + B"
    using assms by (metis add.commute div_mult_mod_eq add_less_cancel_left mod_less_divisor mult.commute)
  then show "T - ((T - 1) div B) * B \<le> B" by simp
qed

lemma tx_copy_after:
  assumes B: "0 < nr_buf_size r0" and inv: "tx_after lim r0 T st"
  shows "\<exists>st'. tx_copy lim d st = Some st' \<and> tx_after lim r0 (T + length d) st'"
proof -
  let ?B = "nr_buf_size r0"
  let ?S = "(T - 1) div ?B"
  obtain r pool nb where st: "st = (r, pool, nb)" by (cases st) auto
  have r: "r = tx_splits lim ?S r0" and nbE: "nb = T - ?S * ?B"
    using inv by (simp_all add: tx_after_def st)
  have Br: "nr_buf_size r = ?B" using r by simp
  have le1: "?S * ?B \<le> T - 1" and nbB: "nb \<le> ?B"
    using tx_after_bound[OF B, of T] nbE by simp_all
  from tx_copy_count[of r nb lim d pool] B nbB Br
  obtain pool' where c: "tx_copy lim d (r, pool, nb) =
     Some (tx_splits lim ((nb + length d - 1) div ?B) r, pool',
           nb + length d - ((nb + length d - 1) div ?B) * ?B)"
    by auto
  define q where "q = ?S * ?B"
  have "nb + length d - 1 = (T + length d - 1) - q"
    using le1 nbE unfolding q_def[symmetric] by arith
  then have x: "nb + length d - 1 = (T + length d - 1) - ?S * ?B"
    by (simp add: q_def)
  have le2: "?S * ?B \<le> T + length d - 1"
    using le1 unfolding q_def[symmetric] by arith
  have s: "(nb + length d - 1) div ?B = (T + length d - 1) div ?B - ?S"
    unfolding x by (rule div_diff_mult[OF le2 B])
  have mono: "?S \<le> (T + length d - 1) div ?B" by (simp add: div_le_mono)
  then have sum: "?S + ((T + length d - 1) div ?B - ?S) = (T + length d - 1) div ?B" by simp
  have ring: "tx_splits lim ((nb + length d - 1) div ?B) r = tx_splits lim ((T + length d - 1) div ?B) r0"
    unfolding s r tx_splits_add[symmetric] sum ..
  define S' where "S' = (T + length d - 1) div ?B"
  have qT: "q \<le> T" using le1 unfolding q_def[symmetric] by arith
  have "(S' - ?S) * ?B = S' * ?B - q" by (simp add: diff_mult_distrib q_def)
  moreover have "q \<le> S' * ?B" using mono by (simp add: q_def S'_def)
  ultimately have "T - q + length d - (S' - ?S) * ?B = T + length d - S' * ?B"
    using qT by arith
  then have "nb + length d - (S' - ?S) * ?B = T + length d - S' * ?B"
    using nbE by (simp add: q_def)
  then have nb2: "nb + length d - ((nb + length d - 1) div ?B) * ?B
      = T + length d - ((T + length d - 1) div ?B) * ?B"
    by (simp only: s S'_def)
  show ?thesis using c ring nb2 by (simp add: st tx_after_def)
qed

lemma tx_frags_after:
  assumes B: "0 < nr_buf_size r0"
  shows "tx_after lim r0 T st \<Longrightarrow>
    \<exists>st'. tx_frags lim fs st = Some st' \<and> tx_after lim r0 (T + length (concat fs)) st'"
proof (induction fs arbitrary: T st)
  case Nil
  then show ?case by simp
next
  case (Cons f fs)
  from tx_copy_after[OF B Cons.prems, of f] obtain st1 where
    1: "tx_copy lim f st = Some st1" "tx_after lim r0 (T + length f) st1" by blast
  from Cons.IH[OF 1(2)] show ?case using 1(1) by (simp add: add.assoc)
qed

lemma tx_splits_Suc_right:
  "tx_splits lim (Suc s) r = tx_next_slot lim (tx_splits lim s r) (nr_buf_size r)"
  using tx_splits_add[of lim s 1 r] by simp

lemma length_slot_tx_splits [simp]: "length (slot (tx_splits lim s r)) = length (slot r)"
  by (induction s arbitrary: r) (simp_all add: tx_next_slot_def)

lemma tail_tx_splits [simp]: "tail (tx_splits lim s r) = tail r"
  by (induction s arbitrary: r) (simp_all add: tx_next_slot_def)

lemma head_tx_splits:
  "head r < lim + 1 \<Longrightarrow> head (tx_splits lim s r) = (head r + s) mod (lim + 1)"
proof (induction s)
  case 0
  then show ?case by simp
next
  case (Suc s)
  then show ?case
    by (simp add: tx_splits_Suc_right tx_next_slot_def nm_next_def mod_Suc_eq
          del: tx_splits.simps(2))
qed

lemma cur_tx_splits:
  "0 < s \<Longrightarrow> head r < lim + 1 \<Longrightarrow> cur (tx_splits lim s r) = (head r + s) mod (lim + 1)"
  by (cases s) (simp_all add: tx_splits_Suc_right tx_next_slot_def nm_next_def head_tx_splits
      mod_Suc_eq del: tx_splits.simps(2))

lemma mod_shift_neq:
  assumes "j < s" "s < (M::nat)"
  shows "(h + j) mod M \<noteq> (h + s) mod M"
proof
  assume eq: "(h + j) mod M = (h + s) mod M"
  have "M dvd (h + s) - (h + j)"
    using mod_eq_dvd_iff_nat[of "h + j" "h + s" M] eq assms by simp
  then have "M dvd s - j" by simp
  moreover have "0 < s - j" using assms by simp
  ultimately have "M \<le> s - j" by (rule dvd_imp_le)
  then show False using assms by simp
qed

lemma tx_splits_written:
  assumes h: "head r < lim + 1"
  shows "j < s \<Longrightarrow> (head r + j) mod (lim + 1) < length (slot r) \<Longrightarrow>
     flags (slot (tx_splits lim s r) ! ((head r + j) mod (lim + 1))) = NS_MOREFRAG \<and>
     len (slot (tx_splits lim s r) ! ((head r + j) mod (lim + 1))) = nr_buf_size r mod 2 ^ 16"
proof (induction s)
  case 0
  then show ?case by simp
next
  case (Suc s)
  let ?i = "(head r + j) mod (lim + 1)"
  let ?R = "tx_splits lim s r"
  have hd: "head ?R = (head r + s) mod (lim + 1)" by (rule head_tx_splits[OF h])
  show ?case
  proof (cases "?i = head ?R")
    case True
    then show ?thesis using Suc.prems(2)
      by (simp add: tx_splits_Suc_right tx_next_slot_def del: tx_splits.simps(2))
  next
    case False
    then have "j \<noteq> s" using hd by auto
    then have "j < s" using Suc.prems(1) by simp
    from Suc.IH[OF this Suc.prems(2)] False show ?thesis
      by (simp add: tx_splits_Suc_right tx_next_slot_def del: tx_splits.simps(2))
  qed
qed

lemma tx_splits_untouched:
  assumes h: "head r < lim + 1"
  shows "(\<And>j. j < s \<Longrightarrow> i \<noteq> (head r + j) mod (lim + 1)) \<Longrightarrow>
     slot (tx_splits lim s r) ! i = slot r ! i"
proof (induction s)
  case 0
  then show ?case by simp
next
  case (Suc s)
  have hd: "head (tx_splits lim s r) = (head r + s) mod (lim + 1)" by (rule head_tx_splits[OF h])
  have "i \<noteq> head (tx_splits lim s r)" using Suc.prems[of s] hd by simp
  moreover have "slot (tx_splits lim s r) ! i = slot r ! i"
    using Suc.prems by (intro Suc.IH) simp
  ultimately show ?case
    by (simp add: tx_splits_Suc_right tx_next_slot_def del: tx_splits.simps(2))
qed

lemma tx_sync_tail_fields [simp]:
  "ptfeatures (tx_sync_tail pi) = ptfeatures pi"
  "trace (tx_sync_tail pi) = trace pi"
  "stats (tx_sync_tail pi) = stats pi"
  "nmb (tx_sync_tail pi) = nmb pi"
  "queue_stopped (tx_sync_tail pi) = queue_stopped pi"
  "host (tx_sync_tail pi) = tl (host pi)"
  "rx_kring (tx_sync_tail pi) = rx_kring pi"
  by (simp_all add: tx_sync_tail_def Let_def)

lemma tx_sync_tail_ring [simp]:
  "head (ring (tx_kring (tx_sync_tail pi))) = head (ring (tx_kring pi))"
  "cur (ring (tx_kring (tx_sync_tail pi))) = cur (ring (tx_kring pi))"
  "slot (ring (tx_kring (tx_sync_tail pi))) = slot (ring (tx_kring pi))"
  "nr_buf_size (ring (tx_kring (tx_sync_tail pi))) = nr_buf_size (ring (tx_kring pi))"
  "nkr_num_slots (tx_kring (tx_sync_tail pi)) = nkr_num_slots (tx_kring pi)"
  "ring_lim (tx_kring (tx_sync_tail pi)) = ring_lim (tx_kring pi)"
  by (simp_all add: tx_sync_tail_def Let_def ptnet_sync_tail_def
        ptnetmap_guest_read_kring_csb_def ring_lim_def)

lemma tx_publish_fields [simp]:
  "ring (tx_kring (tx_publish skb pi)) = ring (tx_kring pi)"
  "stats (tx_publish skb pi) = stats pi"
  "host (tx_publish skb pi) = host pi"
  "queue_stopped (tx_publish skb pi) = queue_stopped pi"
  "guest_need_txkick (csb (tx_publish skb pi)) = guest_need_txkick (csb pi)"
  by (simp_all add: tx_publish_def Let_def)

lemma tx_double_check_ring [simp]:
  "head (ring (tx_kring (tx_double_check pi))) = head (ring (tx_kring pi))"
  "cur (ring (tx_kring (tx_double_check pi))) = cur (ring (tx_kring pi))"
  "slot (ring (tx_kring (tx_double_check pi))) = slot (ring (tx_kring pi))"
  "stats (tx_double_check pi) = stats pi"
  by (simp_all add: tx_double_check_def Let_def)

lemma tx_first_slot_after:
  assumes "0 < nr_buf_size (ring (tx_kring pi))"
      and "tx_hdr_bytes pi \<le> nr_buf_size (ring (tx_kring pi))"
  shows "tx_after lim (ring (tx_kring pi)) (tx_hdr_bytes pi) (tx_first_slot skb pi)"
proof -
  have "(tx_hdr_bytes pi - 1) div nr_buf_size (ring (tx_kring pi)) = 0"
    using assms by simp
  then show ?thesis
    by (simp add: tx_after_def tx_first_slot_def tx_hdr_bytes_def Let_def)
qed

lemma ptnet_start_xmit_filled:
  assumes B: "0 < nr_buf_size (ring (tx_kring pi0))"
      and H: "tx_hdr_bytes pi0 \<le> nr_buf_size (ring (tx_kring pi0))"
      and nf: "head (ring (tx_kring (tx_sync_tail pi0))) \<noteq> tail (ring (tx_kring (tx_sync_tail pi0)))"
  shows "\<exists>pool. ptnet_start_xmit skb pi0 =
           Some (tx_done skb (tx_double_check (tx_publish skb
              ((tx_sync_tail pi0)\<lparr>tx_kring := (tx_kring (tx_sync_tail pi0))\<lparr>ring := tx_filled skb (tx_sync_tail pi0)\<rparr>,
                                  nmb := pool\<rparr>))))"
proof -
  let ?pi = "tx_sync_tail pi0"
  let ?r0 = "ring (tx_kring ?pi)"
  let ?lim = "ring_lim (tx_kring ?pi)"
  have B': "0 < nr_buf_size ?r0" using B by simp
  have H': "tx_hdr_bytes ?pi \<le> nr_buf_size ?r0" using H by (simp add: tx_hdr_bytes_def)
  from tx_copy_after[OF B' tx_first_slot_after[OF B' H', of ?lim skb], of "data skb"]
  obtain st2 where 2: "tx_copy ?lim (data skb) (tx_first_slot skb ?pi) = Some st2"
      "tx_after ?lim ?r0 (tx_hdr_bytes ?pi + length (data skb)) st2" by blast
  from tx_frags_after[OF B' 2(2), of "frags skb"]
  obtain st3 where 3: "tx_frags ?lim (frags skb) st2 = Some st3"
      "tx_after ?lim ?r0 (tx_hdr_bytes ?pi + skb_len skb) st3"
    by (auto simp: skb_len_def add.assoc)
  obtain r pool nb where st3: "st3 = (r, pool, nb)" by (cases st3) auto
  have "tx_last_slot ?lim r nb = tx_filled skb ?pi"
    using 3(2) by (simp add: st3 tx_after_def tx_filled_def tx_nsplits_def Let_def)
  then show ?thesis using nf 2(1) 3(1)
    by (auto simp: ptnet_start_xmit_def Let_def st3 simp del: tx_sync_tail_ring)
qed

lemma tx_publish_kfree [simp]:
  "filter is_kfree (trace (tx_publish skb pi)) = filter is_kfree (trace pi)"
  by (simp add: tx_publish_def Let_def)

lemma tx_double_check_kfree [simp]:
  "filter is_kfree (trace (tx_double_check pi)) = filter is_kfree (trace pi)"
  by (simp add: tx_double_check_def Let_def)

lemma head_tx_filled:
  assumes "head (ring (tx_kring pi)) < nkr_num_slots (tx_kring pi)"
  shows "head (tx_filled skb pi) =
           (head (ring (tx_kring pi)) + tx_nsplits skb pi + 1) mod nkr_num_slots (tx_kring pi)"
    and "cur (tx_filled skb pi) =
           (head (ring (tx_kring pi)) + tx_nsplits skb pi + 1) mod nkr_num_slots (tx_kring pi)"
proof -
  have lim: "ring_lim (tx_kring pi) + 1 = nkr_num_slots (tx_kring pi)"
    using assms(1) by (simp add: ring_lim_def)
  have h: "head (ring (tx_kring pi)) < ring_lim (tx_kring pi) + 1" using assms lim by simp
  show "head (tx_filled skb pi) =
           (head (ring (tx_kring pi)) + tx_nsplits skb pi + 1) mod nkr_num_slots (tx_kring pi)"
    using head_tx_splits[OF h, of "tx_nsplits skb pi"] lim
    by (simp add: tx_filled_def Let_def tx_last_slot_def nm_next_def mod_Suc_eq)
  show "cur (tx_filled skb pi) =
           (head (ring (tx_kring pi)) + tx_nsplits skb pi + 1) mod nkr_num_slots (tx_kring pi)"
    using head_tx_splits[OF h, of "tx_nsplits skb pi"] lim
    by (simp add: tx_filled_def Let_def tx_last_slot_def nm_next_def mod_Suc_eq)
qed

lemma slot_tx_filled_last:
  assumes "head (ring (tx_kring pi)) < nkr_num_slots (tx_kring pi)"
      and "nkr_num_slots (tx_kring pi) = length (slot (ring (tx_kring pi)))"
  shows "flags (slot (tx_filled skb pi) !
            ((head (ring (tx_kring pi)) + tx_nsplits skb pi) mod nkr_num_slots (tx_kring pi))) = 0"
    and "len (slot (tx_filled skb pi) !
            ((head (ring (tx_kring pi)) + tx_nsplits skb pi) mod nkr_num_slots (tx_kring pi))) =
          (tx_hdr_bytes pi + skb_len skb - tx_nsplits skb pi * nr_buf_size (ring (tx_kring pi)))
            mod 2 ^ 16"
proof -
  have lim: "ring_lim (tx_kring pi) + 1 = nkr_num_slots (tx_kring pi)"
    using assms(1) by (simp add: ring_lim_def)
  have h: "head (ring (tx_kring pi)) < ring_lim (tx_kring pi) + 1" using assms lim by simp
  have N: "0 < nkr_num_slots (tx_kring pi)" using assms(1) by arith
  have i: "(head (ring (tx_kring pi)) + tx_nsplits skb pi) mod nkr_num_slots (tx_kring pi)
            < length (slot (ring (tx_kring pi)))"
    using mod_less_divisor[OF N] by (metis assms(2))
  show "flags (slot (tx_filled skb pi) !
            ((head (ring (tx_kring pi)) + tx_nsplits skb pi) mod nkr_num_slots (tx_kring pi))) = 0"
    using head_tx_splits[OF h, of "tx_nsplits skb pi"] lim i
    by (simp add: tx_filled_def Let_def tx_last_slot_def)
  show "len (slot (tx_filled skb pi) !
            ((head (ring (tx_kring pi)) + tx_nsplits skb pi) mod nkr_num_slots (tx_kring pi))) =
          (tx_hdr_bytes pi + skb_len skb - tx_nsplits skb pi * nr_buf_size (ring (tx_kring pi)))
            mod 2 ^ 16"
    using head_tx_splits[OF h, of "tx_nsplits skb pi"] lim i
    by (simp add: tx_filled_def Let_def tx_last_slot_def)
qed

lemma slot_tx_filled_more:
  assumes "head (ring (tx_kring pi)) < nkr_num_slots (tx_kring pi)"
      and "nkr_num_slots (tx_kring pi) = length (slot (ring (tx_kring pi)))"
      and "j < tx_nsplits skb pi" and "tx_nsplits skb pi < nkr_num_slots (tx_kring pi)"
  shows "flags (slot (tx_filled skb pi) !
            ((head (ring (tx_kring pi)) + j) mod nkr_num_slots (tx_kring pi))) = NS_MOREFRAG \<and>
         len (slot (tx_filled skb pi) !
            ((head (ring (tx_kring pi)) + j) mod nkr_num_slots (tx_kring pi))) =
           nr_buf_size (ring (tx_kring pi)) mod 2 ^ 16"
proof -
  let ?N = "nkr_num_slots (tx_kring pi)"
  let ?h = "head (ring (tx_kring pi))"
  have lim: "ring_lim (tx_kring pi) + 1 = ?N"
    using assms(1) by (simp add: ring_lim_def)
  have h: "?h < ring_lim (tx_kring pi) + 1" using assms lim by simp
  have N: "0 < ?N" using assms(1) by arith
  have i: "(?h + j) mod (ring_lim (tx_kring pi) + 1) < length (slot (ring (tx_kring pi)))"
    using mod_less_divisor[OF N] by (metis assms(2) lim)
  have ne: "(?h + j) mod ?N \<noteq> (?h + tx_nsplits skb pi) mod ?N"
    by (rule mod_shift_neq[OF assms(3,4)])
  have lim': "Suc (ring_lim (tx_kring pi)) = ?N" using lim by simp
  from tx_splits_written[OF h assms(3) i] head_tx_splits[OF h, of "tx_nsplits skb pi"] ne
  show ?thesis
    by (simp add: tx_filled_def Let_def tx_last_slot_def lim')
qed

subsection \<open>Transmit\<close>

lemma ex_pi_simps [simp]:
  "nr_buf_size (ring (tx_kring (ex_pi bs h t pubs))) = bs"
  "head (ring (tx_kring (ex_pi bs h t pubs))) = h"
  "tail (ring (tx_kring (ex_pi bs h t pubs))) = t"
  "slot (ring (tx_kring (ex_pi bs h t pubs))) = ex_slots"
  "nkr_num_slots (tx_kring (ex_pi bs h t pubs)) = 4"
  "tx_hdr_bytes (ex_pi bs h t pubs) = 0"
  "host (ex_pi bs h t pubs) = pubs"
  "length ex_slots = 4"
  "skb_len (ex_skb d) = length d"
  by (simp_all add: ex_pi_def ex_kring_def ex_slots_def tx_hdr_bytes_def ex_skb_def skb_len_def
        NET_PTN_FEATURES_VNET_HDR_def)

lemma tail_tx_sync_tail:
  "tail (ring (tx_kring (tx_sync_tail pi))) =
     (case host pi of [] \<Rightarrow> pt_hwtail (tx_ring (csb pi)) | h # hs \<Rightarrow> hp_hwtail h)"
  by (simp add: tx_sync_tail_def Let_def ptnet_sync_tail_def ptnetmap_guest_read_kring_csb_def
        host_publish_def split: list.splits)

lemma tx_hdr_bytes_sync [simp]: "tx_hdr_bytes (tx_sync_tail pi) = tx_hdr_bytes pi"
  by (simp add: tx_hdr_bytes_def)

lemma tx_nsplits_sync [simp]: "tx_nsplits skb (tx_sync_tail pi) = tx_nsplits skb pi"
  by (simp add: tx_nsplits_def)

lemma div_exact_pred: "0 < (B::nat) \<Longrightarrow> (B * Suc k - 1) div B = k"
proof -
  assume B: "0 < B"
  have e: "B * Suc k - 1 = k * B + (B - 1)" using B by (simp add: mult.commute)
  have "(k * B + (B - 1)) div B = k + (B - 1) div B"
    using B by (intro div_mult_self3) simp
  then show ?thesis unfolding e using B by simp
qed

text \<open>The bytes the copy loops leave in the buffers.\<close>

lemma tx_bufs_ok_nth:
  "tx_bufs_ok B sl pool = (\<forall>i < length sl. B \<le> length (NMB pool (sl ! i)))"
  by (simp add: tx_bufs_ok_def list_all_length)

lemma buf_idx_tx_splits:
  "i < length (slot r) \<Longrightarrow> buf_idx (slot (tx_splits lim s r) ! i) = buf_idx (slot r ! i)"
proof (induction s arbitrary: r)
  case 0
  then show ?case by simp
next
  case (Suc s)
  have "buf_idx (slot (tx_next_slot lim r (nr_buf_size r)) ! i) = buf_idx (slot r ! i)"
    using Suc.prems by (cases "i = head r") (simp_all add: tx_next_slot_def cur_slot_def)
  moreover have "i < length (slot (tx_next_slot lim r (nr_buf_size r)))"
    using Suc.prems by (simp add: tx_next_slot_def)
  ultimately show ?case using Suc.IH[of "tx_next_slot lim r (nr_buf_size r)"] by simp
qed

lemma NMB_cong: "buf_idx a = buf_idx b \<Longrightarrow> NMB pool a = NMB pool b"
  by (simp add: NMB_def)

lemma NMB_update_same:
  "buf_idx a < length pool \<Longrightarrow> NMB (pool[buf_idx a := v]) a = v"
  by (simp add: NMB_def)

lemma NMB_update_other:
  "buf_idx b \<noteq> buf_idx a \<Longrightarrow> NMB (pool[buf_idx a := v]) b = NMB pool b"
  by (simp add: NMB_def)

lemma tx_bufs_ok_idx:
  "tx_bufs_ok B sl pool \<Longrightarrow> 0 < B \<Longrightarrow> i < length sl \<Longrightarrow> buf_idx (sl ! i) < length pool"
  by (auto simp: tx_bufs_ok_nth NMB_def split: if_splits dest!: spec[of _ i])

text \<open>One \<open>memcpy\<close> into the slot at position \<open>s\<close>.\<close>

lemma tx_stored_memcpy:
  assumes B: "0 < B" and ok: "tx_bufs_ok B sl pool" and dist: "distinct (map buf_idx sl)"
      and N: "lim + 1 = length sl" and s: "s < length sl"
      and nb: "nb + length c \<le> B"
      and cs: "buf_idx cs = buf_idx (sl ! ((h + s) mod (lim + 1)))"
  defines "pool' \<equiv> pool[buf_idx cs := take nb (NMB pool cs) @ c @ drop (nb + length c) (NMB pool cs)]"
  shows "tx_bufs_ok B sl pool'"
    and "tx_stored lim B sl pool' h s (nb + length c) = tx_stored lim B sl pool h s nb @ c"
proof -
  let ?i = "(h + s) mod (lim + 1)"
  have i: "?i < length sl" using N by (metis mod_less_divisor s gr_implies_not0 neq0_conv)
  have bi: "buf_idx cs < length pool" using tx_bufs_ok_idx[OF ok B i] cs by simp
  have b: "NMB pool cs = NMB pool (sl ! ?i)" by (rule NMB_cong[OF cs])
  have lb: "B \<le> length (NMB pool cs)" using ok i b by (simp add: tx_bufs_ok_nth)
  have new: "NMB pool' (sl ! ?i) = take nb (NMB pool cs) @ c @ drop (nb + length c) (NMB pool cs)"
    using NMB_update_same[of "sl ! ?i" pool] bi cs by (simp add: pool'_def)
  have other: "\<And>k. k < length sl \<Longrightarrow> k \<noteq> ?i \<Longrightarrow> NMB pool' (sl ! k) = NMB pool (sl ! k)"
  proof -
    fix k assume k: "k < length sl" "k \<noteq> ?i"
    have "buf_idx (sl ! k) \<noteq> buf_idx (sl ! ?i)"
      using dist k i by (simp add: distinct_conv_nth)
    then show "NMB pool' (sl ! k) = NMB pool (sl ! k)"
      unfolding pool'_def cs by (rule NMB_update_other)
  qed
  show "tx_bufs_ok B sl pool'"
    unfolding tx_bufs_ok_nth
  proof (intro allI impI)
    fix k assume k: "k < length sl"
    show "B \<le> length (NMB pool' (sl ! k))"
    proof (cases "k = ?i")
      case True
      then show ?thesis using new lb nb by simp
    next
      case False
      then show ?thesis using other[OF k False] ok k by (simp add: tx_bufs_ok_nth)
    qed
  qed
  have earlier: "\<And>j. j < s \<Longrightarrow> NMB pool' (sl ! ((h + j) mod (lim + 1))) = NMB pool (sl ! ((h + j) mod (lim + 1)))"
  proof -
    fix j assume j: "j < s"
    have s': "s < lim + 1" using s N by simp
    have "(h + j) mod (lim + 1) \<noteq> ?i" by (rule mod_shift_neq[OF j s'])
    moreover have "(h + j) mod (lim + 1) < length sl"
      using N by (metis mod_less_divisor s gr_implies_not0 neq0_conv)
    ultimately show "NMB pool' (sl ! ((h + j) mod (lim + 1))) = NMB pool (sl ! ((h + j) mod (lim + 1)))"
      using other by simp
  qed
  have t: "take (nb + length c) (NMB pool' (sl ! ?i)) = take nb (NMB pool (sl ! ?i)) @ c"
    using new b lb nb by simp
  have m: "concat (map (\<lambda>j. take B (NMB pool' (sl ! ((h + j) mod (lim + 1))))) [0..<s]) =
        concat (map (\<lambda>j. take B (NMB pool (sl ! ((h + j) mod (lim + 1))))) [0..<s])"
    by (rule arg_cong[where f = concat], rule map_cong) (use earlier in simp_all)
  show "tx_stored lim B sl pool' h s (nb + length c) = tx_stored lim B sl pool h s nb @ c"
    unfolding tx_stored_def t m by simp
qed

lemma tx_stored_next:
  assumes "nb = B"
  shows "tx_stored lim B sl pool h (Suc s) 0 = tx_stored lim B sl pool h s nb"
  using assms by (simp add: tx_stored_def)

lemma memcpy_nmbuf_eq:
  "memcpy_nmbuf r pool nb c =
     pool[buf_idx (cur_slot r) := take nb (NMB pool (cur_slot r)) @ c @
            drop (nb + length c) (NMB pool (cur_slot r))]"
  by (simp add: memcpy_nmbuf_def Let_def)

lemma cur_slot_tx_splits:
  assumes "head r0 < lim + 1" "lim + 1 = length (slot r0)"
  shows "buf_idx (cur_slot (tx_splits lim s r0)) =
         buf_idx (slot r0 ! ((head r0 + s) mod (lim + 1)))"
proof -
  have "(head r0 + s) mod (lim + 1) < length (slot r0)"
    using assms(2) by (metis mod_less_divisor zero_less_Suc Suc_eq_plus1)
  then show ?thesis
    using head_tx_splits[OF assms(1), of s] by (simp add: cur_slot_def buf_idx_tx_splits)
qed

text \<open>The copy loop keeps the bytes stored so far and appends the piece it copies.\<close>

lemma tx_copy_stored_aux:
  assumes B: "0 < nr_buf_size r0" and dist: "distinct (map buf_idx (slot r0))"
      and N: "lim + 1 = length (slot r0)" and h: "head r0 < lim + 1"
  shows "length d = n \<Longrightarrow> nb < nr_buf_size r0 \<Longrightarrow>
     s + (nb + length d - 1) div nr_buf_size r0 < length (slot r0) \<Longrightarrow>
     tx_bufs_ok (nr_buf_size r0) (slot r0) pool \<Longrightarrow>
     \<exists>pool'. tx_copy lim d (tx_splits lim s r0, pool, nb) =
       Some (tx_splits lim (s + (nb + length d - 1) div nr_buf_size r0) r0, pool',
             nb + length d - ((nb + length d - 1) div nr_buf_size r0) * nr_buf_size r0) \<and>
       tx_bufs_ok (nr_buf_size r0) (slot r0) pool' \<and>
       tx_stored lim (nr_buf_size r0) (slot r0) pool' (head r0)
          (s + (nb + length d - 1) div nr_buf_size r0)
          (nb + length d - ((nb + length d - 1) div nr_buf_size r0) * nr_buf_size r0) =
       tx_stored lim (nr_buf_size r0) (slot r0) pool (head r0) s nb @ d"
proof (induction n arbitrary: d s pool nb rule: less_induct)
  case (less n)
  let ?B = "nr_buf_size r0"
  let ?r = "tx_splits lim s r0"
  have Br: "nr_buf_size ?r = ?B" by simp
  have sN: "s < length (slot r0)" using less.prems(3) by simp
  note cs = cur_slot_tx_splits[OF h N, of s]
  show ?case
  proof (cases "length d \<le> ?B - nb")
    case True
    then have z: "(nb + length d - 1) div ?B = 0" using less.prems(2) by simp
    have le: "nb + length d \<le> ?B" using True less.prems(2) by simp
    from tx_stored_memcpy[OF B less.prems(4) dist N sN le cs]
    show ?thesis unfolding z using True
      by (simp add: tx_copy_fits memcpy_nmbuf_eq)
  next
    case False
    let ?c = "take (?B - nb) d"
    let ?d = "drop (?B - nb) d"
    let ?pool = "memcpy_nmbuf ?r pool nb ?c"
    have lc: "length ?c = ?B - nb" using False by simp
    have le: "nb + length ?c \<le> ?B" using less.prems(2) lc by simp
    from tx_stored_memcpy[OF B less.prems(4) dist N sN le cs]
    have ok1: "tx_bufs_ok ?B (slot r0) ?pool"
      and st1: "tx_stored lim ?B (slot r0) ?pool (head r0) s (nb + length ?c) =
                tx_stored lim ?B (slot r0) pool (head r0) s nb @ ?c"
      by (simp_all add: memcpy_nmbuf_eq)
    have full: "nb + length ?c = ?B" using less.prems(2) lc by simp
    have st2: "tx_stored lim ?B (slot r0) ?pool (head r0) (Suc s) 0 =
               tx_stored lim ?B (slot r0) pool (head r0) s nb @ ?c"
      using st1 tx_stored_next[OF full, of lim "slot r0" ?pool "head r0" s] by simp
    have lt: "length ?d < n" using less.prems(1,2) False by simp
    have T: "nb + length d - 1 = (length ?d - 1) + ?B" using False less.prems(2) by simp
    have q: "(nb + length d - 1) div ?B = Suc ((length ?d - 1) div ?B)"
      unfolding T using B by (rule div_add_self_Suc)
    have bound: "Suc s + (0 + length ?d - 1) div ?B < length (slot r0)"
      using less.prems(3) q by simp
    from less.IH[OF lt refl B bound ok1]
    obtain pool' where
      c: "tx_copy lim ?d (tx_splits lim (Suc s) r0, ?pool, 0) =
           Some (tx_splits lim (Suc s + (0 + length ?d - 1) div ?B) r0, pool',
                 0 + length ?d - ((0 + length ?d - 1) div ?B) * ?B)"
      and ok': "tx_bufs_ok ?B (slot r0) pool'"
      and st': "tx_stored lim ?B (slot r0) pool' (head r0)
                  (Suc s + (0 + length ?d - 1) div ?B)
                  (0 + length ?d - ((0 + length ?d - 1) div ?B) * ?B) =
                tx_stored lim ?B (slot r0) ?pool (head r0) (Suc s) 0 @ ?d"
      by blast
    have ld: "length ?d = nb + length d - ?B" using less.prems(2) by simp
    have nbeq: "nb + (?B - nb) = ?B" using less.prems(2) by simp
    have step: "tx_copy lim d (?r, pool, nb) =
                tx_copy lim ?d (tx_splits lim (Suc s) r0, ?pool, 0)"
      using False by (simp add: tx_copy_split nbeq tx_splits_Suc_right del: tx_splits.simps(2))
    have e1: "s + (nb + length d - 1) div ?B = Suc s + (0 + length ?d - 1) div ?B"
      using q by simp
    have e2: "nb + length d - ((nb + length d - 1) div ?B) * ?B =
              0 + length ?d - ((0 + length ?d - 1) div ?B) * ?B"
    proof -
      define k where "k = ((0 + length ?d - 1) div ?B) * ?B"
      have l: "((nb + length d - 1) div ?B) * ?B = ?B + k" unfolding q k_def by simp
      have "nb + length d - (?B + k) = 0 + (nb + length d - ?B) - k" by arith
      then show ?thesis unfolding l ld k_def .
    qed
    show ?thesis
      unfolding step e1 e2 using c ok' st' st2 by simp
  qed
qed


lemma tx_copy_stored:
  assumes B: "0 < nr_buf_size r0" and dist: "distinct (map buf_idx (slot r0))"
      and N: "lim + 1 = length (slot r0)" and h: "head r0 < lim + 1"
      and nb: "nb \<le> nr_buf_size r0"
      and bound: "s + (nb + length d - 1) div nr_buf_size r0 < length (slot r0)"
      and ok: "tx_bufs_ok (nr_buf_size r0) (slot r0) pool"
  shows "\<exists>pool'. tx_copy lim d (tx_splits lim s r0, pool, nb) =
       Some (tx_splits lim (s + (nb + length d - 1) div nr_buf_size r0) r0, pool',
             nb + length d - ((nb + length d - 1) div nr_buf_size r0) * nr_buf_size r0) \<and>
       tx_bufs_ok (nr_buf_size r0) (slot r0) pool' \<and>
       tx_stored lim (nr_buf_size r0) (slot r0) pool' (head r0)
          (s + (nb + length d - 1) div nr_buf_size r0)
          (nb + length d - ((nb + length d - 1) div nr_buf_size r0) * nr_buf_size r0) =
       tx_stored lim (nr_buf_size r0) (slot r0) pool (head r0) s nb @ d"
proof (cases "nb < nr_buf_size r0")
  case True
  from tx_copy_stored_aux[OF B dist N h refl True bound ok] show ?thesis .
next
  case False
  let ?B = "nr_buf_size r0"
  let ?r = "tx_splits lim s r0"
  from False nb have eq: "nb = ?B" by simp
  have sN: "s < length (slot r0)" using bound by simp
  note cs = cur_slot_tx_splits[OF h N, of s]
  have le: "nb + length ([] :: byte list) \<le> ?B" using eq by simp
  let ?pool = "memcpy_nmbuf ?r pool nb []"
  from tx_stored_memcpy[OF B ok dist N sN le cs]
  have ok1: "tx_bufs_ok ?B (slot r0) ?pool"
    and st1: "tx_stored lim ?B (slot r0) ?pool (head r0) s nb =
              tx_stored lim ?B (slot r0) pool (head r0) s nb"
    by (simp_all add: memcpy_nmbuf_eq)
  show ?thesis
  proof (cases "d = []")
    case True
    have z: "(nb + length d - 1) div ?B = 0" using True eq B by simp
    show ?thesis unfolding z using ok1 st1 True B eq
      by (simp add: tx_copy_fits)
  next
    case False
    have st2: "tx_stored lim ?B (slot r0) ?pool (head r0) (Suc s) 0 =
               tx_stored lim ?B (slot r0) pool (head r0) s nb"
      using st1 tx_stored_next[OF eq, of lim "slot r0" ?pool "head r0" s] by simp
    have T: "nb + length d - 1 = (length d - 1) + ?B" using False eq by (cases d) simp_all
    have q: "(nb + length d - 1) div ?B = Suc ((length d - 1) div ?B)"
      unfolding T using B by (rule div_add_self_Suc)
    have bound': "Suc s + (0 + length d - 1) div ?B < length (slot r0)"
      using bound q by simp
    from tx_copy_stored_aux[OF B dist N h refl B bound' ok1]
    obtain pool' where
      c: "tx_copy lim d (tx_splits lim (Suc s) r0, ?pool, 0) =
           Some (tx_splits lim (Suc s + (0 + length d - 1) div ?B) r0, pool',
                 0 + length d - ((0 + length d - 1) div ?B) * ?B)"
      and ok': "tx_bufs_ok ?B (slot r0) pool'"
      and st': "tx_stored lim ?B (slot r0) pool' (head r0)
                  (Suc s + (0 + length d - 1) div ?B)
                  (0 + length d - ((0 + length d - 1) div ?B) * ?B) =
                tx_stored lim ?B (slot r0) ?pool (head r0) (Suc s) 0 @ d"
      by blast
    have step: "tx_copy lim d (?r, pool, nb) = tx_copy lim d (tx_splits lim (Suc s) r0, ?pool, 0)"
      using False eq by (simp add: tx_copy_split tx_splits_Suc_right del: tx_splits.simps(2))
    have e1: "s + (nb + length d - 1) div ?B = Suc s + (0 + length d - 1) div ?B"
      using q by simp
    have e2: "nb + length d - ((nb + length d - 1) div ?B) * ?B =
              0 + length d - ((0 + length d - 1) div ?B) * ?B"
      using q eq by simp
    show ?thesis
      unfolding step e1 e2 using c ok' st' st2 by simp
  qed
qed

text \<open>Slots and remainder after \<open>T\<close> bytes, then \<open>L\<close> more.\<close>

lemma tx_chunks_arith:
  fixes B T L :: nat
  assumes B: "0 < B"
  defines "S \<equiv> (T - 1) div B" and "S' \<equiv> (T + L - 1) div B"
  shows "S + (T - S * B + L - 1) div B = S'"
    and "T - S * B + L - ((T - S * B + L - 1) div B) * B = T + L - S' * B"
    and "T - S * B \<le> B"
proof -
  define q where "q = S * B"
  have le1: "q \<le> T - 1" by (simp add: q_def S_def)
  have nbB: "T - q \<le> B" using tx_after_bound(2)[OF B, of T] by (simp add: q_def S_def)
  show "T - S * B \<le> B" using nbB by (simp add: q_def)
  have x: "T - q + L - 1 = (T + L - 1) - q" using le1 by arith
  have le2: "S * B \<le> T + L - 1" using le1 unfolding q_def by arith
  have "(T + L - 1 - S * B) div B = (T + L - 1) div B - S"
    by (rule div_diff_mult[OF le2 B])
  then have s: "(T - q + L - 1) div B = S' - S"
    unfolding x by (simp add: q_def S'_def)
  have mono: "S \<le> S'" unfolding S_def S'_def by (simp add: div_le_mono)
  show 1: "S + (T - S * B + L - 1) div B = S'"
    using s mono by (simp add: q_def)
  have qT: "q \<le> T" using le1 by arith
  have "(S' - S) * B = S' * B - q" by (simp add: diff_mult_distrib q_def)
  moreover have "q \<le> S' * B" using mono by (simp add: q_def)
  ultimately have "T - q + L - (S' - S) * B = T + L - S' * B" using qT by arith
  then show "T - S * B + L - ((T - S * B + L - 1) div B) * B = T + L - S' * B"
    using s by (simp add: q_def)
qed

lemma tx_copy_holds:
  assumes B: "0 < nr_buf_size r0" and dist: "distinct (map buf_idx (slot r0))"
      and N: "lim + 1 = length (slot r0)" and h: "head r0 < lim + 1"
      and inv: "tx_holds lim r0 w st"
      and bound: "(length w + length d - 1) div nr_buf_size r0 < length (slot r0)"
  shows "\<exists>st'. tx_copy lim d st = Some st' \<and> tx_holds lim r0 (w @ d) st'"
proof -
  let ?B = "nr_buf_size r0"
  let ?S = "(length w - 1) div ?B"
  let ?nb = "length w - ?S * ?B"
  obtain r pool nb where st: "st = (r, pool, nb)" by (cases st) auto
  have r: "r = tx_splits lim ?S r0" and nbE: "nb = ?nb"
    and ok: "tx_bufs_ok ?B (slot r0) pool"
    and sto: "tx_stored lim ?B (slot r0) pool (head r0) ?S ?nb = w"
    using inv by (simp_all add: tx_holds_def st)
  note a = tx_chunks_arith(1,2)[OF B, where T = "length w" and L = "length d"]
  note a3 = tx_chunks_arith(3)[OF B, where T = "length w"]
  have bound': "?S + (?nb + length d - 1) div ?B < length (slot r0)"
    using bound a(1) by simp
  from tx_copy_stored[OF B dist N h a3 bound' ok] obtain pool' where
    c: "tx_copy lim d (tx_splits lim ?S r0, pool, ?nb) =
         Some (tx_splits lim (?S + (?nb + length d - 1) div ?B) r0, pool',
               ?nb + length d - ((?nb + length d - 1) div ?B) * ?B)"
    and ok': "tx_bufs_ok ?B (slot r0) pool'"
    and st': "tx_stored lim ?B (slot r0) pool' (head r0)
               (?S + (?nb + length d - 1) div ?B)
               (?nb + length d - ((?nb + length d - 1) div ?B) * ?B) =
              tx_stored lim ?B (slot r0) pool (head r0) ?S ?nb @ d"
    by blast
  note c' = c[unfolded a(1) a(2)] and st'' = st'[unfolded a(1) a(2) sto]
  let ?S' = "(length w + length d - 1) div ?B"
  have "tx_holds lim r0 (w @ d) (tx_splits lim ?S' r0, pool', length w + length d - ?S' * ?B)"
    unfolding tx_holds_def using ok' st'' by simp
  then show ?thesis using c' unfolding st r nbE by simp
qed

lemma tx_frags_holds:
  assumes B: "0 < nr_buf_size r0" and dist: "distinct (map buf_idx (slot r0))"
      and N: "lim + 1 = length (slot r0)" and h: "head r0 < lim + 1"
  shows "tx_holds lim r0 w st \<Longrightarrow>
    (length w + length (concat fs) - 1) div nr_buf_size r0 < length (slot r0) \<Longrightarrow>
    \<exists>st'. tx_frags lim fs st = Some st' \<and> tx_holds lim r0 (w @ concat fs) st'"
proof (induction fs arbitrary: w st)
  case Nil
  then show ?case by simp
next
  case (Cons f fs)
  have "(length w + length f - 1) div nr_buf_size r0 \<le>
        (length w + length (concat (f # fs)) - 1) div nr_buf_size r0"
    by (intro div_le_mono) simp
  then have b1: "(length w + length f - 1) div nr_buf_size r0 < length (slot r0)"
    using Cons.prems(2) by simp
  from tx_copy_holds[OF B dist N h Cons.prems(1) b1] obtain st1 where
    1: "tx_copy lim f st = Some st1" "tx_holds lim r0 (w @ f) st1" by blast
  have b2: "(length (w @ f) + length (concat fs) - 1) div nr_buf_size r0 < length (slot r0)"
    using Cons.prems(2) by (simp add: add.assoc)
  from Cons.IH[OF 1(2) b2] show ?case using 1(1) by simp
qed

lemma length_tx_vnet_hdr [simp]: "length (tx_vnet_hdr skb vh) = length vh"
  by (simp add: tx_vnet_hdr_def Let_def set_vh_flags_def set_vh_gso_type_def set_vh_hdr_len_def
        set_vh_gso_size_def set_vh_csum_start_def set_vh_csum_offset_def set_vh_num_buffers_def
        put_u8_def put_u16_def)

lemma length_tx_stream:
  assumes "tx_hdr_bytes pi \<le> length (NMB (nmb pi) (cur_slot (ring (tx_kring pi))))"
  shows "length (tx_stream skb pi) = tx_hdr_bytes pi + skb_len skb"
  using assms by (auto simp: tx_stream_def tx_hdr_bytes_def skb_len_def split: if_splits)

lemma tx_first_slot_holds:
  assumes B: "0 < nr_buf_size (ring (tx_kring pi))"
      and H: "tx_hdr_bytes pi \<le> nr_buf_size (ring (tx_kring pi))"
      and dist: "distinct (map buf_idx (slot (ring (tx_kring pi))))"
      and N: "lim + 1 = length (slot (ring (tx_kring pi)))"
      and h: "head (ring (tx_kring pi)) < lim + 1"
      and ok: "tx_bufs_ok (nr_buf_size (ring (tx_kring pi))) (slot (ring (tx_kring pi))) (nmb pi)"
  shows "tx_holds lim (ring (tx_kring pi))
           (if ptfeatures pi AND NET_PTN_FEATURES_VNET_HDR \<noteq> 0
            then take sizeof_vh (tx_vnet_hdr skb (NMB (nmb pi) (cur_slot (ring (tx_kring pi)))))
            else [])
           (tx_first_slot skb pi)"
proof (cases "ptfeatures pi AND NET_PTN_FEATURES_VNET_HDR \<noteq> 0")
  case False
  then show ?thesis using ok
    by (simp add: tx_holds_def tx_first_slot_def Let_def tx_stored_def)
next
  case True
  let ?r = "ring (tx_kring pi)"
  let ?B = "nr_buf_size ?r"
  let ?b = "NMB (nmb pi) (cur_slot ?r)"
  let ?pool = "(nmb pi)[buf_idx (cur_slot ?r) := tx_vnet_hdr skb ?b]"
  have hl: "head ?r < length (slot ?r)" using h N by simp
  have H': "sizeof_vh \<le> ?B" using H True by (simp add: tx_hdr_bytes_def)
  have lb: "?B \<le> length ?b" using ok hl by (simp add: tx_bufs_ok_nth cur_slot_def)
  have len: "length (take sizeof_vh (tx_vnet_hdr skb ?b)) = sizeof_vh" using H' lb by simp
  have z: "(sizeof_vh - 1) div ?B = 0" using H' B by (simp add: sizeof_vh_def)
  have bi: "buf_idx (cur_slot ?r) < length (nmb pi)"
    using tx_bufs_ok_idx[OF ok B hl] by (simp add: cur_slot_def)
  have ok': "tx_bufs_ok ?B (slot ?r) ?pool"
    unfolding tx_bufs_ok_nth
  proof (intro allI impI)
    fix k assume k: "k < length (slot ?r)"
    show "?B \<le> length (NMB ?pool (slot ?r ! k))"
    proof (cases "buf_idx (slot ?r ! k) = buf_idx (cur_slot ?r)")
      case True
      then have "NMB ?pool (slot ?r ! k) = tx_vnet_hdr skb ?b" using bi by (simp add: NMB_def)
      then show ?thesis using lb by simp
    next
      case False
      then have "NMB ?pool (slot ?r ! k) = NMB (nmb pi) (slot ?r ! k)" by (simp add: NMB_def)
      then show ?thesis using ok k by (simp add: tx_bufs_ok_nth)
    qed
  qed
  have hm: "head ?r mod (lim + 1) = head ?r" using h by simp
  have "NMB ?pool (slot ?r ! head ?r) = tx_vnet_hdr skb ?b"
    using bi by (simp add: NMB_def cur_slot_def)
  then have sto: "tx_stored lim ?B (slot ?r) ?pool (head ?r) 0 sizeof_vh =
                  take sizeof_vh (tx_vnet_hdr skb ?b)"
    using hm by (simp add: tx_stored_def)
  have w: "(if ptfeatures pi AND NET_PTN_FEATURES_VNET_HDR \<noteq> 0
            then take sizeof_vh (tx_vnet_hdr skb ?b) else []) =
           take sizeof_vh (tx_vnet_hdr skb ?b)"
    using True by simp
  show ?thesis unfolding w tx_holds_def len z using True ok' sto
    by (simp add: tx_first_slot_def Let_def)
qed

lemma tx_read_last_slot:
  assumes N: "lim + 1 = length (slot r0)" and h: "head r0 < lim + 1"
      and S: "S < length (slot r0)"
      and B16: "nr_buf_size r0 < 2 ^ 16" and nb: "nb \<le> nr_buf_size r0"
  shows "tx_read lim (slot (tx_last_slot lim (tx_splits lim S r0) nb)) pool (head r0) (Suc S) =
         tx_stored lim (nr_buf_size r0) (slot r0) pool (head r0) S nb"
proof -
  let ?R = "tx_splits lim S r0"
  let ?L = "tx_last_slot lim ?R nb"
  let ?i = "\<lambda>j. (head r0 + j) mod (lim + 1)"
  have il: "\<And>j. ?i j < length (slot r0)"
    using N by (metis mod_less_divisor zero_less_Suc Suc_eq_plus1)
  have hd: "head ?R = ?i S" by (rule head_tx_splits[OF h])
  have sl: "slot ?L = (slot ?R)[?i S := (slot ?R ! ?i S)\<lparr>len := nb mod 2 ^ 16, flags := 0\<rparr>]"
    by (simp add: tx_last_slot_def cur_slot_def hd)
  have last: "len (slot ?L ! ?i S) = nb" "buf_idx (slot ?L ! ?i S) = buf_idx (slot r0 ! ?i S)"
    using il[of S] nb B16 by (simp_all add: sl buf_idx_tx_splits)
  have more: "\<And>j. j < S \<Longrightarrow> take (len (slot ?L ! ?i j)) (NMB pool (slot ?L ! ?i j)) =
                  take (nr_buf_size r0) (NMB pool (slot r0 ! ?i j))"
  proof -
    fix j assume j: "j < S"
    have S': "S < lim + 1" using S N by simp
    have ne: "?i j \<noteq> ?i S" by (rule mod_shift_neq[OF j S'])
    have "len (slot ?R ! ?i j) = nr_buf_size r0 mod 2 ^ 16"
      using tx_splits_written[OF h j il[of j]] by simp
    then have l: "len (slot ?L ! ?i j) = nr_buf_size r0"
        and b: "buf_idx (slot ?L ! ?i j) = buf_idx (slot r0 ! ?i j)"
      using ne B16 il[of j] by (simp_all add: sl buf_idx_tx_splits)
    show "take (len (slot ?L ! ?i j)) (NMB pool (slot ?L ! ?i j)) =
               take (nr_buf_size r0) (NMB pool (slot r0 ! ?i j))"
      unfolding l NMB_cong[OF b] ..
  qed
  have m: "concat (map (\<lambda>j. take (len (slot ?L ! ?i j)) (NMB pool (slot ?L ! ?i j))) [0..<S]) =
        concat (map (\<lambda>j. take (nr_buf_size r0) (NMB pool (slot r0 ! ?i j))) [0..<S])"
    by (rule arg_cong[where f = concat], rule map_cong) (use more in simp_all)
  have t: "take (len (slot ?L ! ?i S)) (NMB pool (slot ?L ! ?i S)) =
                 take nb (NMB pool (slot r0 ! ?i S))"
    unfolding last(1) NMB_cong[OF last(2)] ..
  show ?thesis
    using m t by (simp add: tx_read_def tx_stored_def)
qed


lemma tx_stream_sync [simp]: "tx_stream skb (tx_sync_tail pi) = tx_stream skb pi"
  by (simp add: tx_stream_def cur_slot_def)

lemma nmb_tx_publish [simp]: "nmb (tx_publish skb pi) = nmb pi"
  by (simp add: tx_publish_def Let_def)

lemma nmb_tx_double_check [simp]: "nmb (tx_double_check pi) = nmb pi"
  by (simp add: tx_double_check_def Let_def)

lemma ptnet_start_xmit_content:
  assumes B: "0 < nr_buf_size (ring (tx_kring pi0))"
      and H: "tx_hdr_bytes pi0 \<le> nr_buf_size (ring (tx_kring pi0))"
      and nf: "head (ring (tx_kring (tx_sync_tail pi0))) \<noteq> tail (ring (tx_kring (tx_sync_tail pi0)))"
      and hd: "head (ring (tx_kring pi0)) < nkr_num_slots (tx_kring pi0)"
      and N: "nkr_num_slots (tx_kring pi0) = length (slot (ring (tx_kring pi0)))"
      and S: "tx_nsplits skb pi0 < nkr_num_slots (tx_kring pi0)"
      and B16: "nr_buf_size (ring (tx_kring pi0)) < 2 ^ 16"
      and dist: "distinct (map buf_idx (slot (ring (tx_kring pi0))))"
      and ok: "tx_bufs_ok (nr_buf_size (ring (tx_kring pi0))) (slot (ring (tx_kring pi0))) (nmb pi0)"
      and x: "ptnet_start_xmit skb pi0 = Some (rv, pi')"
  shows "tx_read (ring_lim (tx_kring pi0)) (slot (ring (tx_kring pi'))) (nmb pi')
           (head (ring (tx_kring pi0))) (Suc (tx_nsplits skb pi0)) = tx_stream skb pi0"
proof -
  let ?pi = "tx_sync_tail pi0"
  let ?r0 = "ring (tx_kring ?pi)"
  let ?lim = "ring_lim (tx_kring ?pi)"
  let ?B = "nr_buf_size ?r0"
  let ?S = "tx_nsplits skb pi0"
  let ?h = "if ptfeatures ?pi AND NET_PTN_FEATURES_VNET_HDR \<noteq> 0
            then take sizeof_vh (tx_vnet_hdr skb (NMB (nmb ?pi) (cur_slot ?r0))) else []"
  let ?w = "tx_stream skb ?pi"
  have B': "0 < ?B" using B by simp
  have H': "tx_hdr_bytes ?pi \<le> ?B" using H by simp
  have lim: "?lim + 1 = length (slot ?r0)" using hd N by (cases "slot (ring (tx_kring pi0))") (simp_all add: ring_lim_def)
  have h': "head ?r0 < ?lim + 1" using hd N unfolding lim by simp
  have dist': "distinct (map buf_idx (slot ?r0))" using dist by simp
  have ok': "tx_bufs_ok ?B (slot ?r0) (nmb ?pi)" using ok by simp
  have S': "?S < length (slot ?r0)" using S N by simp
  have B16': "?B < 2 ^ 16" using B16 by simp
  have hl: "head ?r0 < length (slot ?r0)" using hd N by simp
  have "?B \<le> length (NMB (nmb ?pi) (cur_slot ?r0))"
    using ok' hl unfolding tx_bufs_ok_nth cur_slot_def by blast
  then have "tx_hdr_bytes ?pi \<le> length (NMB (nmb ?pi) (cur_slot ?r0))" using H' by simp
  then have lw: "length ?w = tx_hdr_bytes ?pi + skb_len skb" by (rule length_tx_stream)
  have Sw: "(length ?w - 1) div ?B = ?S" unfolding lw by (simp add: tx_nsplits_def)
  have w: "(?h @ data skb) @ concat (frags skb) = ?w" unfolding tx_stream_def by simp
  note 1 = tx_first_slot_holds[OF B' H' dist' lim h' ok', of skb]
  have "(length (?h @ data skb) - 1) div ?B \<le> (length ?w - 1) div ?B"
    unfolding w[symmetric] by (intro div_le_mono) simp
  then have b1: "(length ?h + length (data skb) - 1) div ?B < length (slot ?r0)"
    using S' unfolding Sw by simp
  from tx_copy_holds[OF B' dist' lim h' 1 b1] obtain st2 where
    2: "tx_copy ?lim (data skb) (tx_first_slot skb ?pi) = Some st2"
       "tx_holds ?lim ?r0 (?h @ data skb) st2" by blast
  have "length (?h @ data skb) + length (concat (frags skb)) = length ?w"
    unfolding w[symmetric] by simp
  then have b2: "(length (?h @ data skb) + length (concat (frags skb)) - 1) div ?B
                   < length (slot ?r0)"
    using S' Sw by simp
  from tx_frags_holds[OF B' dist' lim h' 2(2) b2] obtain st3 where
    3: "tx_frags ?lim (frags skb) st2 = Some st3"
       "tx_holds ?lim ?r0 ((?h @ data skb) @ concat (frags skb)) st3" by blast
  obtain r pool nb where st3: "st3 = (r, pool, nb)" by (cases st3) auto
  note inv = 3(2)[unfolded w tx_holds_def st3 Sw]
  have r: "r = tx_splits ?lim ?S ?r0" and nb: "nb = length ?w - ?S * ?B"
    using inv by simp_all
  have sto: "tx_stored ?lim ?B (slot ?r0) pool (head ?r0) ?S (length ?w - ?S * ?B) = ?w"
    using inv by simp
  have nbB: "length ?w - ?S * ?B \<le> ?B"
    using tx_after_bound(2)[OF B', of "length ?w"] unfolding Sw .
  have pi': "pi' = snd (tx_done skb (tx_double_check (tx_publish skb
               (?pi\<lparr>tx_kring := (tx_kring ?pi)\<lparr>ring := tx_last_slot ?lim r nb\<rparr>, nmb := pool\<rparr>))))"
    using x nf 2(1) 3(1)
    by (simp add: ptnet_start_xmit_def Let_def st3 del: tx_sync_tail_ring)
  have sl: "slot (ring (tx_kring pi')) = slot (tx_last_slot ?lim r nb)" and p: "nmb pi' = pool"
    by (simp_all add: pi' tx_done_def)
  from tx_read_last_slot[OF lim h' S' B16' nbB, of pool]
  have "tx_read ?lim (slot (ring (tx_kring pi'))) (nmb pi') (head ?r0) (Suc ?S) = ?w"
    unfolding sl p r nb sto .
  then show ?thesis by simp
qed


text \<open>
  C5. A transmit that is not dropped puts the header (when the feature is on) and the
  payload, \<open>W\<close> bytes in all, into \<open>S + 1\<close> consecutive slots from the old \<open>head\<close>, where
  \<open>S = (W - 1) div buf_size\<close> is the number of times the capacity of a slot was exceeded:
  the first \<open>S\<close> slots are full (\<open>len = buf_size\<close>) and carry \<open>NS_MOREFRAG\<close>, the last
  slot holds the rest and has no flag, and \<open>head\<close> and \<open>cur\<close> have advanced by one per
  slot. \<open>len\<close> is the 16-bit field of the slot, so it holds the count modulo \<open>2 ^ 16\<close>.
  When the packet needs fewer slots than the ring has, the buffers are smaller than
  \<open>2 ^ 16\<close> bytes, no two slots share a buffer and every buffer has \<open>buf_size\<close> bytes, then
  reading \<open>len\<close> bytes from the buffer of each of the \<open>S + 1\<close> slots, in ring order, gives
  the header followed by the linear part and the fragments of the packet, byte for byte.
  With no header and a payload of \<open>buf_size * k\<close> bytes (\<open>k > 0\<close>) that is exactly
  \<open>k\<close> slots, the last one full.
\<close>

theorem ptnet_start_xmit_slots:
  assumes B: "0 < nr_buf_size (ring (tx_kring pi0))"
      and H: "tx_hdr_bytes pi0 \<le> nr_buf_size (ring (tx_kring pi0))"
      and nf: "head (ring (tx_kring (tx_sync_tail pi0))) \<noteq> tail (ring (tx_kring (tx_sync_tail pi0)))"
      and hd: "head (ring (tx_kring pi0)) < nkr_num_slots (tx_kring pi0)"
      and N: "nkr_num_slots (tx_kring pi0) = length (slot (ring (tx_kring pi0)))"
  shows "\<exists>pi'. ptnet_start_xmit skb pi0 = Some (NETDEV_TX_OK, pi') \<and>
     head (ring (tx_kring pi')) =
       (head (ring (tx_kring pi0)) + tx_nsplits skb pi0 + 1) mod nkr_num_slots (tx_kring pi0) \<and>
     cur (ring (tx_kring pi')) = head (ring (tx_kring pi')) \<and>
     flags (slot (ring (tx_kring pi')) !
        ((head (ring (tx_kring pi0)) + tx_nsplits skb pi0) mod nkr_num_slots (tx_kring pi0))) = 0 \<and>
     len (slot (ring (tx_kring pi')) !
        ((head (ring (tx_kring pi0)) + tx_nsplits skb pi0) mod nkr_num_slots (tx_kring pi0))) =
       (tx_hdr_bytes pi0 + skb_len skb - tx_nsplits skb pi0 * nr_buf_size (ring (tx_kring pi0)))
         mod 2 ^ 16 \<and>
     (\<forall>j. j < tx_nsplits skb pi0 \<and> tx_nsplits skb pi0 < nkr_num_slots (tx_kring pi0) \<longrightarrow>
        flags (slot (ring (tx_kring pi')) !
          ((head (ring (tx_kring pi0)) + j) mod nkr_num_slots (tx_kring pi0))) = NS_MOREFRAG \<and>
        len (slot (ring (tx_kring pi')) !
          ((head (ring (tx_kring pi0)) + j) mod nkr_num_slots (tx_kring pi0))) =
            nr_buf_size (ring (tx_kring pi0)) mod 2 ^ 16) \<and>
     (tx_nsplits skb pi0 < nkr_num_slots (tx_kring pi0) \<and>
      nr_buf_size (ring (tx_kring pi0)) < 2 ^ 16 \<and>
      distinct (map buf_idx (slot (ring (tx_kring pi0)))) \<and>
      tx_bufs_ok (nr_buf_size (ring (tx_kring pi0))) (slot (ring (tx_kring pi0))) (nmb pi0) \<longrightarrow>
        tx_read (ring_lim (tx_kring pi0)) (slot (ring (tx_kring pi'))) (nmb pi')
          (head (ring (tx_kring pi0))) (tx_nsplits skb pi0 + 1) = tx_stream skb pi0) \<and>
     (\<forall>k. 0 < k \<and> tx_hdr_bytes pi0 = 0 \<and> skb_len skb = nr_buf_size (ring (tx_kring pi0)) * k \<longrightarrow>
        tx_nsplits skb pi0 + 1 = k \<and>
        tx_hdr_bytes pi0 + skb_len skb - tx_nsplits skb pi0 * nr_buf_size (ring (tx_kring pi0)) =
          nr_buf_size (ring (tx_kring pi0)))"
proof -
  let ?pi = "tx_sync_tail pi0"
  from ptnet_start_xmit_filled[OF B H nf, of skb] obtain pool where
    x: "ptnet_start_xmit skb pi0 =
           Some (tx_done skb (tx_double_check (tx_publish skb
              (?pi\<lparr>tx_kring := (tx_kring ?pi)\<lparr>ring := tx_filled skb ?pi\<rparr>, nmb := pool\<rparr>))))"
    by blast
  define pi' where "pi' = snd (tx_done skb (tx_double_check (tx_publish skb
              (?pi\<lparr>tx_kring := (tx_kring ?pi)\<lparr>ring := tx_filled skb ?pi\<rparr>, nmb := pool\<rparr>))))"
  have x': "ptnet_start_xmit skb pi0 = Some (NETDEV_TX_OK, pi')"
    unfolding x pi'_def by (simp add: tx_done_def)
  have r: "head (ring (tx_kring pi')) = head (tx_filled skb ?pi)"
          "cur (ring (tx_kring pi')) = cur (tx_filled skb ?pi)"
          "slot (ring (tx_kring pi')) = slot (tx_filled skb ?pi)"
    by (simp_all add: pi'_def tx_done_def)
  have hd': "head (ring (tx_kring ?pi)) < nkr_num_slots (tx_kring ?pi)" using hd by simp
  have N': "nkr_num_slots (tx_kring ?pi) = length (slot (ring (tx_kring ?pi)))" using N by simp
  have mult: "\<And>k. 0 < k \<Longrightarrow> tx_hdr_bytes pi0 = 0 \<Longrightarrow>
        skb_len skb = nr_buf_size (ring (tx_kring pi0)) * k \<Longrightarrow>
        tx_nsplits skb pi0 + 1 = k \<and>
        tx_hdr_bytes pi0 + skb_len skb - tx_nsplits skb pi0 * nr_buf_size (ring (tx_kring pi0)) =
          nr_buf_size (ring (tx_kring pi0))"
  proof -
    fix k :: nat
    let ?B = "nr_buf_size (ring (tx_kring pi0))"
    assume k: "0 < k" and h0: "tx_hdr_bytes pi0 = 0" and l: "skb_len skb = ?B * k"
    obtain k' where k': "k = Suc k'" using k by (cases k) auto
    have "(?B * k - 1) div ?B = k'" unfolding k' by (rule div_exact_pred[OF B])
    then have s: "tx_nsplits skb pi0 = k'" by (simp add: tx_nsplits_def h0 l)
    show "tx_nsplits skb pi0 + 1 = k \<and>
        tx_hdr_bytes pi0 + skb_len skb - tx_nsplits skb pi0 * nr_buf_size (ring (tx_kring pi0)) =
          nr_buf_size (ring (tx_kring pi0))"
      by (simp add: s h0 l k')
  qed
  have content: "tx_nsplits skb pi0 < nkr_num_slots (tx_kring pi0) \<Longrightarrow>
      nr_buf_size (ring (tx_kring pi0)) < 2 ^ 16 \<Longrightarrow>
      distinct (map buf_idx (slot (ring (tx_kring pi0)))) \<Longrightarrow>
      tx_bufs_ok (nr_buf_size (ring (tx_kring pi0))) (slot (ring (tx_kring pi0))) (nmb pi0) \<Longrightarrow>
        tx_read (ring_lim (tx_kring pi0)) (slot (ring (tx_kring pi'))) (nmb pi')
          (head (ring (tx_kring pi0))) (tx_nsplits skb pi0 + 1) = tx_stream skb pi0"
    using ptnet_start_xmit_content[OF B H nf hd N _ _ _ _ x'] by simp
  show ?thesis
    using x' head_tx_filled[OF hd', of skb] slot_tx_filled_last[OF hd' N', of skb]
      slot_tx_filled_more[OF hd' N', of _ skb] mult content
    by (simp add: r)
qed

lemma ex_pi_csb [simp]:
  "pt_hwtail (tx_ring (csb (ex_pi bs h t pubs))) = t"
  "ptfeatures (ex_pi bs h t pubs) = 1"
  "trace (ex_pi bs h t pubs) = []"
  "stats (ex_pi bs h t pubs) = \<lparr>tx_bytes = 0, tx_packets = 0, rx_bytes = 0, rx_packets = 0\<rparr>"
  "queue_stopped (ex_pi bs h t pubs) = False"
  "guest_need_txkick (csb (ex_pi bs h t pubs)) = 0"
  by (simp_all add: ex_pi_def ex_ptr_def)

lemma tx_sync_tail_guest [simp]:
  "guest_need_txkick (csb (tx_sync_tail pi)) = guest_need_txkick (csb pi)"
  "guest_need_rxkick (csb (tx_sync_tail pi)) = guest_need_rxkick (csb pi)"
  by (simp_all add: tx_sync_tail_def Let_def split: list.splits)

lemma ex_pi_bufs [simp]:
  "nmb (ex_pi bs h t pubs) = replicate 4 (replicate bs 0)"
  "ring_lim (tx_kring (ex_pi bs h t pubs)) = 3"
  "distinct (map buf_idx ex_slots)"
  "tx_bufs_ok bs ex_slots (replicate 4 (replicate bs 0))"
  "tx_stream (ex_skb d) (ex_pi bs h t pubs) = d"
  by (simp_all add: ex_pi_def ex_kring_def ex_slots_def ring_lim_def tx_bufs_ok_def NMB_def
        tx_stream_def ex_skb_def NET_PTN_FEATURES_VNET_HDR_def)

theorem ptnet_start_xmit_slots_witness:
  "\<exists>pi'. ptnet_start_xmit (ex_skb [1, 2, 3, 4]) (ex_pi 2 0 3 []) = Some (NETDEV_TX_OK, pi') \<and>
     head (ring (tx_kring pi')) = 2 \<and> cur (ring (tx_kring pi')) = 2 \<and>
     flags (slot (ring (tx_kring pi')) ! 0) = NS_MOREFRAG \<and>
     len (slot (ring (tx_kring pi')) ! 0) = 2 \<and>
     flags (slot (ring (tx_kring pi')) ! 1) = 0 \<and>
     len (slot (ring (tx_kring pi')) ! 1) = 2 \<and>
     tx_read 3 (slot (ring (tx_kring pi'))) (nmb pi') 0 2 = [1, 2, 3, 4]"
proof -
  have S: "tx_nsplits (ex_skb [1, 2, 3, 4]) (ex_pi 2 0 3 []) = 1"
    by (simp add: tx_nsplits_def)
  from ptnet_start_xmit_slots[of "ex_pi 2 0 3 []" "ex_skb [1, 2, 3, 4]"]
  obtain pi' where
    x: "ptnet_start_xmit (ex_skb [1, 2, 3, 4]) (ex_pi 2 0 3 []) = Some (NETDEV_TX_OK, pi')"
    and f: "head (ring (tx_kring pi')) = 2" "cur (ring (tx_kring pi')) = 2"
      "flags (slot (ring (tx_kring pi')) ! 0) = NS_MOREFRAG"
      "len (slot (ring (tx_kring pi')) ! 0) = 2"
      "flags (slot (ring (tx_kring pi')) ! 1) = 0"
      "len (slot (ring (tx_kring pi')) ! 1) = 2"
    and c: "tx_read 3 (slot (ring (tx_kring pi'))) (nmb pi') 0 (Suc (Suc 0)) = [1, 2, 3, 4]"
    by (auto simp: S tail_tx_sync_tail)
  have "Suc (Suc 0) = 2" by simp
  from c[unfolded this] x f show ?thesis by blast
qed

lemma ptnet_start_xmit_full:
  assumes "head (ring (tx_kring (tx_sync_tail pi0))) = tail (ring (tx_kring (tx_sync_tail pi0)))"
  shows "ptnet_start_xmit skb pi0 =
           Some (NETDEV_TX_OK,
                 (tx_sync_tail pi0)\<lparr>trace := trace pi0 @
                    [LOG ''TX ring unexpected overflow, dropping'', DEV_KFREE_SKB_ANY skb]\<rparr>)"
  using assms by (simp add: ptnet_start_xmit_def Let_def del: tx_sync_tail_ring)

text \<open>
  C10. \<open>ptnet_start_xmit\<close> returns, returns \<open>NETDEV_TX_OK\<close> (never \<open>NETDEV_TX_BUSY\<close>), and
  releases the packet exactly once: the call adds exactly one \<open>dev_kfree_skb_any\<close> event,
  for the packet submitted, whether the packet went into the ring or was dropped on a
  full ring.
\<close>

theorem ptnet_start_xmit_always_ok:
  assumes B: "0 < nr_buf_size (ring (tx_kring pi0))"
      and H: "tx_hdr_bytes pi0 \<le> nr_buf_size (ring (tx_kring pi0))"
  shows "\<exists>pi'. ptnet_start_xmit skb pi0 = Some (NETDEV_TX_OK, pi') \<and>
           filter is_kfree (trace pi') = filter is_kfree (trace pi0) @ [DEV_KFREE_SKB_ANY skb]"
proof (cases "head (ring (tx_kring (tx_sync_tail pi0))) = tail (ring (tx_kring (tx_sync_tail pi0)))")
  case True
  show ?thesis unfolding ptnet_start_xmit_full[OF True] by simp
next
  case False
  from ptnet_start_xmit_filled[OF B H False, of skb] show ?thesis
    by (auto simp: tx_done_def)
qed

theorem ptnet_start_xmit_always_ok_witness:
  "(\<exists>pi'. ptnet_start_xmit (ex_skb [1, 2, 3]) (ex_pi 2 0 3 []) = Some (NETDEV_TX_OK, pi') \<and>
      filter is_kfree (trace pi') = [DEV_KFREE_SKB_ANY (ex_skb [1, 2, 3])]) \<and>
   (\<exists>pi'. ptnet_start_xmit (ex_skb [1, 2, 3]) (ex_pi 2 1 1 []) = Some (NETDEV_TX_OK, pi') \<and>
      filter is_kfree (trace pi') = [DEV_KFREE_SKB_ANY (ex_skb [1, 2, 3])])"
  using ptnet_start_xmit_always_ok[of "ex_pi 2 0 3 []" "ex_skb [1, 2, 3]"]
        ptnet_start_xmit_always_ok[of "ex_pi 2 1 1 []" "ex_skb [1, 2, 3]"]
  by simp




lemma tail_tx_filled [simp]: "tail (tx_filled skb pi) = tail (ring (tx_kring pi))"
  by (simp add: tx_filled_def Let_def tx_last_slot_def)

lemma tx_publish_more [simp]:
  "nmb (tx_publish skb pi) = nmb pi"
  "pt_hwtail (tx_ring (csb (tx_publish skb pi))) = pt_hwtail (tx_ring (csb pi))"
  by (simp_all add: tx_publish_def Let_def ptnetmap_guest_write_kring_csb_def)

lemma tx_double_check_full:
  assumes "head (ring (tx_kring pi)) = tail (ring (tx_kring pi))"
  shows "host (tx_double_check pi) = tl (host pi)"
    and "tail (ring (tx_kring (tx_double_check pi))) = tx_second_tail pi"
    and "queue_stopped (tx_double_check pi) = (head (ring (tx_kring pi)) = tx_second_tail pi)"
    and "guest_need_txkick (csb (tx_double_check pi)) =
           (if head (ring (tx_kring pi)) = tx_second_tail pi then 1 else 0)"
    and "trace (tx_double_check pi) = trace pi @
           (if head (ring (tx_kring pi)) = tx_second_tail pi then [NETIF_STOP_QUEUE]
            else [NETIF_STOP_QUEUE, NETIF_START_QUEUE])"
  using assms
  by (simp_all add: tx_double_check_def Let_def tail_tx_sync_tail tx_second_tail_def
        split: list.splits)

text \<open>
  C7. When the transmit leaves the ring full (\<open>head = tail\<close> after the last slot), the
  call stops the queue, sets \<open>guest_need_txkick\<close> to 1 and pulls the peer state once more
  (two publications of the host are consumed in all, the one at entry and this one). If
  the new tail differs from \<open>head\<close>, the queue is started again and \<open>guest_need_txkick\<close>
  is 0 when the call returns; otherwise the queue stays stopped and \<open>guest_need_txkick\<close>
  stays 1.
\<close>

theorem ptnet_start_xmit_double_check:
  assumes B: "0 < nr_buf_size (ring (tx_kring pi0))"
      and H: "tx_hdr_bytes pi0 \<le> nr_buf_size (ring (tx_kring pi0))"
      and nf: "head (ring (tx_kring (tx_sync_tail pi0))) \<noteq> tail (ring (tx_kring (tx_sync_tail pi0)))"
      and full: "head (tx_filled skb (tx_sync_tail pi0)) = tail (ring (tx_kring (tx_sync_tail pi0)))"
  shows "\<exists>pi' evs. ptnet_start_xmit skb pi0 = Some (NETDEV_TX_OK, pi') \<and>
     host pi' = tl (tl (host pi0)) \<and>
     head (ring (tx_kring pi')) = head (tx_filled skb (tx_sync_tail pi0)) \<and>
     tail (ring (tx_kring pi')) =
       (case tl (host pi0) of [] \<Rightarrow> tail (ring (tx_kring (tx_sync_tail pi0)))
        | h # hs \<Rightarrow> hp_hwtail h) \<and>
     (if head (ring (tx_kring pi')) \<noteq> tail (ring (tx_kring pi'))
      then queue_stopped pi' = False \<and> guest_need_txkick (csb pi') = 0 \<and>
           trace pi' = evs @ [NETIF_STOP_QUEUE, NETIF_START_QUEUE, DEV_KFREE_SKB_ANY skb]
      else queue_stopped pi' = True \<and> guest_need_txkick (csb pi') = 1 \<and>
           trace pi' = evs @ [NETIF_STOP_QUEUE, DEV_KFREE_SKB_ANY skb])"
proof -
  let ?pi = "tx_sync_tail pi0"
  from ptnet_start_xmit_filled[OF B H nf, of skb] obtain pool where
    x: "ptnet_start_xmit skb pi0 =
           Some (tx_done skb (tx_double_check (tx_publish skb
              (?pi\<lparr>tx_kring := (tx_kring ?pi)\<lparr>ring := tx_filled skb ?pi\<rparr>, nmb := pool\<rparr>))))"
    by blast
  let ?p = "tx_publish skb (?pi\<lparr>tx_kring := (tx_kring ?pi)\<lparr>ring := tx_filled skb ?pi\<rparr>, nmb := pool\<rparr>)"
  have f: "head (ring (tx_kring ?p)) = tail (ring (tx_kring ?p))" using full by simp
  have t: "pt_hwtail (tx_ring (csb ?pi)) = tail (ring (tx_kring ?pi))"
    by (simp add: tx_sync_tail_def Let_def ptnet_sync_tail_def ptnetmap_guest_read_kring_csb_def)
  have T: "tx_second_tail ?p =
       (case tl (host pi0) of [] \<Rightarrow> tail (ring (tx_kring ?pi)) | h # hs \<Rightarrow> hp_hwtail h)"
    by (simp add: tx_second_tail_def t split: list.splits)
  note d = tx_double_check_full[OF f]
  have "ptnet_start_xmit skb pi0 = Some (NETDEV_TX_OK, snd (tx_done skb (tx_double_check ?p)))"
    unfolding x by (simp add: tx_done_def)
  moreover have "host (snd (tx_done skb (tx_double_check ?p))) = tl (tl (host pi0))"
    by (simp add: tx_done_def d(1))
  moreover have "tail (ring (tx_kring (snd (tx_done skb (tx_double_check ?p))))) =
       (case tl (host pi0) of [] \<Rightarrow> tail (ring (tx_kring ?pi)) | h # hs \<Rightarrow> hp_hwtail h)"
    by (simp add: tx_done_def d(2) T)
  moreover have "head (ring (tx_kring (snd (tx_done skb (tx_double_check ?p))))) =
       head (ring (tx_kring ?p))"
    by (simp add: tx_done_def)
  moreover have "queue_stopped (snd (tx_done skb (tx_double_check ?p))) =
       (head (ring (tx_kring ?p)) = tx_second_tail ?p)"
    by (simp add: tx_done_def d(3))
  moreover have "guest_need_txkick (csb (snd (tx_done skb (tx_double_check ?p)))) =
       (if head (ring (tx_kring ?p)) = tx_second_tail ?p then 1 else 0)"
    by (simp add: tx_done_def d(4))
  moreover have "trace (snd (tx_done skb (tx_double_check ?p))) = trace ?p @
       (if head (ring (tx_kring ?p)) = tx_second_tail ?p
        then [NETIF_STOP_QUEUE, DEV_KFREE_SKB_ANY skb]
        else [NETIF_STOP_QUEUE, NETIF_START_QUEUE, DEV_KFREE_SKB_ANY skb])"
    by (simp add: tx_done_def d(5))
  ultimately show ?thesis
    unfolding T
    by (intro exI[of _ "snd (tx_done skb (tx_double_check ?p))"] exI[of _ "trace ?p"]) simp
qed

theorem ptnet_start_xmit_double_check_witness:
  "\<exists>pi' evs. ptnet_start_xmit (ex_skb [1, 2]) (ex_pi 2 0 1 ex_pubs) = Some (NETDEV_TX_OK, pi') \<and>
     host pi' = [] \<and> head (ring (tx_kring pi')) = 1 \<and> tail (ring (tx_kring pi')) = 3 \<and>
     queue_stopped pi' = False \<and> guest_need_txkick (csb pi') = 0 \<and>
     trace pi' = evs @ [NETIF_STOP_QUEUE, NETIF_START_QUEUE, DEV_KFREE_SKB_ANY (ex_skb [1, 2])]"
proof -
  have S: "tx_nsplits (ex_skb [1, 2]) (ex_pi 2 0 1 ex_pubs) = 0"
    by (simp add: tx_nsplits_def)
  have h: "head (tx_filled (ex_skb [1, 2]) (tx_sync_tail (ex_pi 2 0 1 ex_pubs))) = 1"
    using head_tx_filled(1)[of "tx_sync_tail (ex_pi 2 0 1 ex_pubs)" "ex_skb [1, 2]"] S
    by simp
  from ptnet_start_xmit_double_check[of "ex_pi 2 0 1 ex_pubs" "ex_skb [1, 2]"] h
  show ?thesis
    by (auto simp: tail_tx_sync_tail ex_pubs_def)
qed

lemma tx_free_tail:
  assumes "h < (N::nat)" "t < N"
  shows "(h + (t + N - h) mod N) mod N = t"
proof -
  have "(h + (t + N - h) mod N) mod N = (h + (t + N - h)) mod N"
    by (simp add: mod_add_right_eq)
  also have "h + (t + N - h) = t + N" using assms by simp
  finally show ?thesis using assms by simp
qed

text \<open>
  C3. Occupancy is tested once, at entry. A packet that needs more slots (\<open>S + 1\<close>) than
  are free is still written in full: the slot at index \<open>tail\<close>, which the host has not
  released, receives a descriptor of the packet (its flag, and its byte count in the
  16-bit \<open>len\<close>).
\<close>

theorem ptnet_start_xmit_passes_tail:
  assumes B: "0 < nr_buf_size (ring (tx_kring pi0))"
      and H: "tx_hdr_bytes pi0 \<le> nr_buf_size (ring (tx_kring pi0))"
      and nf: "head (ring (tx_kring (tx_sync_tail pi0))) \<noteq> tail (ring (tx_kring (tx_sync_tail pi0)))"
      and hd: "head (ring (tx_kring pi0)) < nkr_num_slots (tx_kring pi0)"
      and tl: "tail (ring (tx_kring (tx_sync_tail pi0))) < nkr_num_slots (tx_kring pi0)"
      and N: "nkr_num_slots (tx_kring pi0) = length (slot (ring (tx_kring pi0)))"
      and short: "tx_free (tx_sync_tail pi0) < tx_nsplits skb pi0 + 1"
      and fits: "tx_nsplits skb pi0 < nkr_num_slots (tx_kring pi0)"
  shows "\<exists>pi'. ptnet_start_xmit skb pi0 = Some (NETDEV_TX_OK, pi') \<and>
     flags (slot (ring (tx_kring pi')) ! tail (ring (tx_kring (tx_sync_tail pi0)))) =
       (if tx_free (tx_sync_tail pi0) < tx_nsplits skb pi0 then NS_MOREFRAG else 0) \<and>
     len (slot (ring (tx_kring pi')) ! tail (ring (tx_kring (tx_sync_tail pi0)))) =
       (if tx_free (tx_sync_tail pi0) < tx_nsplits skb pi0
        then nr_buf_size (ring (tx_kring pi0))
        else tx_hdr_bytes pi0 + skb_len skb - tx_nsplits skb pi0 * nr_buf_size (ring (tx_kring pi0)))
       mod 2 ^ 16"
proof -
  let ?pi = "tx_sync_tail pi0"
  let ?t = "tail (ring (tx_kring ?pi))"
  let ?h = "head (ring (tx_kring pi0))"
  let ?N = "nkr_num_slots (tx_kring pi0)"
  from ptnet_start_xmit_filled[OF B H nf, of skb] obtain pool where
    x: "ptnet_start_xmit skb pi0 =
           Some (tx_done skb (tx_double_check (tx_publish skb
              (?pi\<lparr>tx_kring := (tx_kring ?pi)\<lparr>ring := tx_filled skb ?pi\<rparr>, nmb := pool\<rparr>))))"
    by blast
  have hd': "head (ring (tx_kring ?pi)) < nkr_num_slots (tx_kring ?pi)" using hd by simp
  have N': "nkr_num_slots (tx_kring ?pi) = length (slot (ring (tx_kring ?pi)))" using N by simp
  have t: "(?h + tx_free ?pi) mod ?N = ?t"
    using tx_free_tail[OF hd tl] by (simp add: tx_free_def)
  show ?thesis
  proof (cases "tx_free ?pi < tx_nsplits skb pi0")
    case True
    then have j: "tx_free ?pi < tx_nsplits skb ?pi" by simp
    have f: "tx_nsplits skb ?pi < nkr_num_slots (tx_kring ?pi)" using fits by simp
    from slot_tx_filled_more[OF hd' N' j f] t True show ?thesis
      unfolding x by (simp add: tx_done_def)
  next
    case False
    then have e: "tx_free ?pi = tx_nsplits skb pi0" using short by simp
    from slot_tx_filled_last[OF hd' N', of skb] t False show ?thesis
      unfolding x by (simp add: tx_done_def e)
  qed
qed

theorem ptnet_start_xmit_passes_tail_witness:
  "tx_free (tx_sync_tail (ex_pi 2 0 1 [])) = 1 \<and>
   tx_nsplits (ex_skb [1, 2, 3, 4, 5, 6]) (ex_pi 2 0 1 []) + 1 = 3 \<and>
   flags (slot (ring (tx_kring (ex_pi 2 0 1 []))) ! 1) = 0 \<and>
   (\<exists>pi'. ptnet_start_xmit (ex_skb [1, 2, 3, 4, 5, 6]) (ex_pi 2 0 1 []) = Some (NETDEV_TX_OK, pi') \<and>
      flags (slot (ring (tx_kring pi')) ! 1) = NS_MOREFRAG \<and>
      len (slot (ring (tx_kring pi')) ! 1) = 2)"
proof -
  have S: "tx_nsplits (ex_skb [1, 2, 3, 4, 5, 6]) (ex_pi 2 0 1 []) = 2"
    by (simp add: tx_nsplits_def)
  have F: "tx_free (tx_sync_tail (ex_pi 2 0 1 [])) = 1"
    by (simp add: tx_free_def tail_tx_sync_tail)
  from ptnet_start_xmit_passes_tail[of "ex_pi 2 0 1 []" "ex_skb [1, 2, 3, 4, 5, 6]"] S F
  show ?thesis
    by (simp add: tail_tx_sync_tail ex_slots_def)
qed

subsection \<open>Receive\<close>

lemma delivered_append [simp]: "delivered (xs @ ys) = delivered xs @ delivered ys"
  by (induction xs rule: delivered.induct) simp_all

lemma ring_lim_ring_update [simp]: "ring_lim (k\<lparr>ring := r\<rparr>) = ring_lim k"
  by (simp add: ring_lim_def)




lemma rx_sync_tail_fields [simp]:
  "ptfeatures (rx_sync_tail pi) = ptfeatures pi"
  "trace (rx_sync_tail pi) = trace pi"
  "stats (rx_sync_tail pi) = stats pi"
  "nmb (rx_sync_tail pi) = nmb pi"
  "alloc_fail (rx_sync_tail pi) = alloc_fail pi"
  "napi_prep (rx_sync_tail pi) = napi_prep pi"
  "host (rx_sync_tail pi) = tl (host pi)"
  "guest_need_rxkick (csb (rx_sync_tail pi)) = guest_need_rxkick (csb pi)"
  "head (ring (rx_kring (rx_sync_tail pi))) = head (ring (rx_kring pi))"
  "cur (ring (rx_kring (rx_sync_tail pi))) = cur (ring (rx_kring pi))"
  "slot (ring (rx_kring (rx_sync_tail pi))) = slot (ring (rx_kring pi))"
  "nkr_num_slots (rx_kring (rx_sync_tail pi)) = nkr_num_slots (rx_kring pi)"
  by (simp_all add: rx_sync_tail_def Let_def ptnet_sync_tail_def
        ptnetmap_guest_read_kring_csb_def split: list.splits)

lemma ring_lim_rx_sync_tail [simp]:
  "ring_lim (rx_kring (rx_sync_tail pi)) = ring_lim (rx_kring pi)"
  by (simp add: ring_lim_def)

lemma tail_rx_sync_tail:
  "tail (ring (rx_kring (rx_sync_tail pi))) =
     (case host pi of [] \<Rightarrow> pt_hwtail (rx_ring (csb pi)) | h # hs \<Rightarrow> hp_hwtail h)"
  by (simp add: rx_sync_tail_def Let_def ptnet_sync_tail_def ptnetmap_guest_read_kring_csb_def
        host_publish_def split: list.splits)

lemma rx_entry_fields [simp]:
  "ptfeatures (rx_entry pi) = ptfeatures pi"
  "trace (rx_entry pi) = trace pi"
  "nmb (rx_entry pi) = nmb pi"
  "alloc_fail (rx_entry pi) = alloc_fail pi"
  "napi_prep (rx_entry pi) = napi_prep pi"
  "host (rx_entry pi) = tl (host pi)"
  "guest_need_rxkick (csb (rx_entry pi)) = guest_need_rxkick (csb pi)"
  "head (ring (rx_kring (rx_entry pi))) = head (ring (rx_kring pi))"
  "slot (ring (rx_kring (rx_entry pi))) = slot (ring (rx_kring pi))"
  "ring_lim (rx_kring (rx_entry pi)) = ring_lim (rx_kring pi)"
  "tail (ring (rx_kring (rx_entry pi))) = tail (ring (rx_kring (rx_sync_tail pi)))"
  by (simp_all add: rx_entry_def Let_def ring_lim_def)

lemma rx_have_vnet_hdr_entry [simp]: "rx_have_vnet_hdr (rx_entry pi) = rx_have_vnet_hdr pi"
  by (simp add: rx_have_vnet_hdr_def)

lemma rx_after_loop [simp]:
  "delivered (trace (rx_complete budget wd pi)) = delivered (trace pi)"
  "delivered (trace (rx_publish wd pi)) = delivered (trace pi)"
  "head (ring (rx_kring (rx_complete budget wd pi))) = head (ring (rx_kring pi))"
  "head (ring (rx_kring (rx_publish wd pi))) = head (ring (rx_kring pi))"
  "tail (ring (rx_kring (rx_publish wd pi))) = tail (ring (rx_kring pi))"
  "host (rx_publish wd pi) = host pi"
  "guest_need_rxkick (csb (rx_publish wd pi)) = guest_need_rxkick (csb pi)"
  by (simp_all add: rx_complete_def rx_publish_def Let_def)








lemma ex_rx_pi_simps [simp]:
  "alloc_fail (ex_rx_pi pubs) = []"
  "host (ex_rx_pi pubs) = pubs"
  "napi_prep (ex_rx_pi pubs) = True"
  "trace (ex_rx_pi pubs) = []"
  "nmb (ex_rx_pi pubs) = [[1, 2], [3, 0], [0, 0], [0, 0]]"
  "rx_have_vnet_hdr (ex_rx_pi pubs) = False"
  "ring_lim (rx_kring (ex_rx_pi pubs)) = 3"
  "head (ring (rx_kring (ex_rx_pi pubs))) = 0"
  "slot (ring (rx_kring (ex_rx_pi pubs))) =
     [\<lparr>buf_idx = 0, len = 2, flags = NS_MOREFRAG\<rparr>, \<lparr>buf_idx = 1, len = 1, flags = 0\<rparr>,
      \<lparr>buf_idx = 2, len = 0, flags = 0\<rparr>, \<lparr>buf_idx = 3, len = 0, flags = 0\<rparr>]"
  by (simp_all add: ex_rx_pi_def rx_have_vnet_hdr_def NET_PTN_FEATURES_VNET_HDR_def ring_lim_def
        ex_kring_def)








subsection \<open>The header round trip\<close>

lemmas vh_defs = set_vh_flags_def set_vh_gso_type_def set_vh_hdr_len_def set_vh_gso_size_def
    set_vh_csum_start_def set_vh_csum_offset_def set_vh_num_buffers_def put_u8_def put_u16_def
    vh_flags_def vh_gso_type_def vh_hdr_len_def vh_gso_size_def vh_csum_start_def
    vh_csum_offset_def get_u8_def get_u16_def

lemmas const_defs = CHECKSUM_PARTIAL_def CHECKSUM_NONE_def CHECKSUM_UNNECESSARY_def
    SKB_GSO_TCPV4_def SKB_GSO_UDP_def SKB_GSO_TCPV6_def SKB_GSO_TCP_ECN_def SKB_GSO_DODGY_def
    VIRTIO_NET_HDR_F_NEEDS_CSUM_def VIRTIO_NET_HDR_F_DATA_VALID_def
    VIRTIO_NET_HDR_GSO_TCPV4_def VIRTIO_NET_HDR_GSO_UDP_def
    VIRTIO_NET_HDR_GSO_TCPV6_def VIRTIO_NET_HDR_GSO_ECN_def VIRTIO_NET_HDR_GSO_NONE_def

text \<open>
  C2. The round trip does not hold on the code: the transmit side chooses \<open>gso_type\<close> from
  the bits of \<open>gso_size\<close>, so the header it writes is the same whatever the segmentation
  type of the packet. A TCPv4 packet with checksum offsets 34 and 16 and a segment
  size of 1460 is encoded with \<open>VIRTIO_NET_HDR_GSO_TCPV6\<close> (byte 1 of the header is 4);
  decoding that header gives the checksum offsets and the segment size back, but the
  segmentation type TCPv6.
\<close>

theorem ptnet_vnet_hdr_gso_type_from_gso_size:
  "tx_vnet_hdr (skb\<lparr>gso_type := t\<rparr>) vh = tx_vnet_hdr skb vh \<and>
   gso_type ex_gso_skb = SKB_GSO_TCPV4 \<and>
   tx_vnet_hdr ex_gso_skb ex_vh0 = [1, 4, 66, 0, 180, 5, 34, 0, 16, 0, 0, 0] \<and>
   rx_packet True [tx_vnet_hdr ex_gso_skb ex_vh0 @ data ex_gso_skb]
      \<lparr>buf_idx = 0, len = 78, flags = 0\<rparr> =
     Some ((rx_new_skb (data ex_gso_skb))\<lparr>ip_summed := CHECKSUM_PARTIAL, csum_start := 34,
        csum_offset := 16, gso_size := 1460, gso_type := SKB_GSO_TCPV6 OR SKB_GSO_DODGY,
        gso_segs := 0\<rparr>)"
proof -
  have enc: "tx_vnet_hdr ex_gso_skb ex_vh0 = [1, 4, 66, 0, 180, 5, 34, 0, 16, 0, 0, 0]"
    by (simp add: tx_vnet_hdr_def ex_gso_skb_def ex_vh0_def Let_def skb_is_gso_def
          skb_headlen_def vh_defs const_defs)
  have dec: "rx_packet True [[1, 4, 66, 0, 180, 5, 34, 0, 16, 0, 0, 0] @ data ex_gso_skb]
      \<lparr>buf_idx = 0, len = 78, flags = 0\<rparr> =
     Some ((rx_new_skb (data ex_gso_skb))\<lparr>ip_summed := CHECKSUM_PARTIAL, csum_start := 34,
        csum_offset := 16, gso_size := 1460, gso_type := SKB_GSO_TCPV6 OR SKB_GSO_DODGY,
        gso_segs := 0\<rparr>)"
    by (simp add: rx_packet_def rx_csum_def rx_gso_def rx_len_def rx_new_skb_def NMB_def
          sizeof_vh_def skb_partial_csum_set_def skb_headlen_def Let_def ex_gso_skb_def
          vh_defs const_defs)
  have ign: "tx_vnet_hdr (skb\<lparr>gso_type := t\<rparr>) vh = tx_vnet_hdr skb vh"
    by (simp add: tx_vnet_hdr_def skb_is_gso_def skb_headlen_def Let_def)
  have ty: "gso_type ex_gso_skb = SKB_GSO_TCPV4" by (simp add: ex_gso_skb_def)
  show ?thesis unfolding enc using dec ign ty by blast
qed

subsection \<open>Registration\<close>

text \<open>
  C8 (as amended). With a registration active (\<open>active_fds > 0\<close>), a request in native mode
  returns 0 and leaves the adapter as it is: no command is written to PTCTL and no
  cursor changes. A request in netif mode (\<open>native = 0\<close>) trips \<open>BUG_ON\<close>.
\<close>

theorem ptnet_nm_register_common_active:
  assumes "0 < active_fds na"
  shows "ptnet_nm_register_common env na onoff True = Inr (0, na) \<and>
         ptnet_nm_register_native env na onoff = Inr (0, na) \<and>
         ptnet_nm_register_common env na onoff False = Inl BUG_ON"
  using assms by (simp add: ptnet_nm_register_common_def ptnet_nm_register_native_def)

theorem ptnet_nm_register_common_active_witness:
  "ptnet_nm_register_common ex_env (ex_na 1) True True = Inr (0, ex_na 1) \<and>
   ptctl_log (ex_na 1) = []"
  using ptnet_nm_register_common_active[of "ex_na 1" ex_env True]
  by (simp add: ex_na_def)

text \<open>
  C8 as stated fails: after a first registration in netif mode (one REGIF, then
  \<open>active_fds = 1\<close>), a second request in the same mode does not return success, it trips
  \<open>BUG_ON\<close>.
\<close>

theorem ptnet_nm_register_common_counterexample:
  "(\<exists>na1. ptnet_nm_register_netif ex_env (ex_na 0) True = Inr (0, na1) \<and>
       ptctl_log na1 = [NET_PARAVIRT_PTCTL_REGIF] \<and>
       ptnet_nm_register_netif ex_env (na1\<lparr>active_fds := 1\<rparr>) True = Inl BUG_ON)"
  by (simp add: ptnet_nm_register_netif_def ptnet_nm_register_common_def ptnet_nm_ptctl_def
        ex_env_def ex_na_def Let_def)

subsection \<open>Peer-state pull\<close>

text \<open>
  C9. Pulling peer state is idempotent with respect to the local cursors: a second
  \<open>ptnet_sync_tail\<close> from a CSB ring whose published \<open>hwcur\<close> and \<open>hwtail\<close> are those of
  the first pull gives the same kring, so \<open>head\<close>, \<open>cur\<close>, \<open>tail\<close>, \<open>hwcur\<close> and \<open>hwtail\<close>
  are as the first pull left them; \<open>head\<close> and \<open>cur\<close> are never written by a pull.
\<close>

theorem ptnet_sync_tail_idempotent:
  assumes "pt_hwcur p' = pt_hwcur p" and "pt_hwtail p' = pt_hwtail p"
  shows "ptnet_sync_tail p' (ptnet_sync_tail p k) = ptnet_sync_tail p k \<and>
         head (ring (ptnet_sync_tail p k)) = head (ring k) \<and>
         cur (ring (ptnet_sync_tail p k)) = cur (ring k)"
  using assms by (simp add: ptnet_sync_tail_def ptnetmap_guest_read_kring_csb_def Let_def)

theorem ptnet_sync_tail_idempotent_witness:
  "ptnet_sync_tail (ex_ptr 0 3) (ptnet_sync_tail (ex_ptr 0 3) (ex_kring 2 0 1)) =
     ptnet_sync_tail (ex_ptr 0 3) (ex_kring 2 0 1) \<and>
   tail (ring (ptnet_sync_tail (ex_ptr 0 3) (ex_kring 2 0 1))) = 3"
  using ptnet_sync_tail_idempotent[of "ex_ptr 0 3" "ex_ptr 0 3" "ex_kring 2 0 1"]
  by (simp add: ptnet_sync_tail_def ptnetmap_guest_read_kring_csb_def Let_def ex_ptr_def)

end
